theory Spec2Isabelle
  imports Main "HOL-Library.Sublist" "HOL-Library.Multiset"
begin

section \<open>Strings\<close>

text \<open>
  A JavaScript string is a sequence of UTF-16 code units. A code unit is modelled as a
  natural number, so that the white space characters above U+00FF, which \<open>\s\<close> and
  \<open>trim\<close> recognise, are part of the model. \<open>js\<close> turns an ASCII literal into such a
  sequence.
\<close>

type_synonym jstring = "nat list"

definition js :: "string \<Rightarrow> jstring" where
  "js s = map of_char s"

text \<open>
  The characters matched by \<open>\s\<close> in a regular expression, which are also the ones that
  \<open>String.prototype.trim\<close> removes: TAB, LF, VT, FF, CR, SPACE, NBSP, U+1680,
  U+2000..U+200A, U+2028, U+2029, U+202F, U+205F, U+3000 and U+FEFF.
\<close>

definition is_space :: "nat \<Rightarrow> bool" where
  "is_space c = (c = 9 \<or> c = 10 \<or> c = 11 \<or> c = 12 \<or> c = 13 \<or> c = 32 \<or> c = 160 \<or> c = 5760
     \<or> (8192 \<le> c \<and> c \<le> 8202) \<or> c = 8232 \<or> c = 8233 \<or> c = 8239 \<or> c = 8287
     \<or> c = 12288 \<or> c = 65279)"

definition trim :: "jstring \<Rightarrow> jstring" where
  "trim s = rev (dropWhile is_space (rev (dropWhile is_space s)))"


section \<open>Regular expressions\<close>

text \<open>
  The four regular expressions of the source are sequences of literals and of starred
  character classes, greedy (\<open>\s*\<close>) or lazy (\<open>[\s\S]*?\<close>). \<open>rmatch\<close> is the backtracking
  matcher anchored at the head of the text: a greedy star first tries to take one more
  character and gives it back when the rest of the pattern fails, a lazy star first tries
  the rest of the pattern and takes one more character when that fails. The result is the
  text matched by each item, in order, and the text after the match.
\<close>

datatype item = Lit jstring | Star "nat \<Rightarrow> bool" | Lazy "nat \<Rightarrow> bool"

fun rmatch :: "item list \<Rightarrow> jstring \<Rightarrow> (jstring list \<times> jstring) option" where
  "rmatch [] s = Some ([], s)"
| "rmatch (Lit p # its) s =
     (if prefix p s
      then map_option (\<lambda>(gs, r). (p # gs, r)) (rmatch its (drop (length p) s))
      else None)"
| "rmatch (Star P # its) [] = map_option (\<lambda>(gs, r). ([] # gs, r)) (rmatch its [])"
| "rmatch (Star P # its) (c # cs) =
     (if P c
      then (case rmatch (Star P # its) cs of
              Some (g # gs, r) \<Rightarrow> Some ((c # g) # gs, r)
            | _ \<Rightarrow> map_option (\<lambda>(gs, r). ([] # gs, r)) (rmatch its (c # cs)))
      else map_option (\<lambda>(gs, r). ([] # gs, r)) (rmatch its (c # cs)))"
| "rmatch (Lazy P # its) [] = map_option (\<lambda>(gs, r). ([] # gs, r)) (rmatch its [])"
| "rmatch (Lazy P # its) (c # cs) =
     (case rmatch its (c # cs) of
        Some (gs, r) \<Rightarrow> Some ([] # gs, r)
      | None \<Rightarrow>
          (if P c
           then (case rmatch (Lazy P # its) cs of
                   Some (g # gs, r) \<Rightarrow> Some ((c # g) # gs, r)
                 | _ \<Rightarrow> None)
           else None))"

text \<open>
  \<open>String.prototype.matchAll\<close> and \<open>String.prototype.replace\<close> with a global regular
  expression: the matcher is tried at every position from the end of the previous match;
  after an empty match the scan advances by one code unit. \<open>matchAll\<close> returns, for each
  match, the texts matched by the items; \<open>replaceAll\<close> puts \<open>r\<close> in the place of each match
  (none of the replacement strings of the source contains \<open>$\<close>).
\<close>

function matchAll :: "item list \<Rightarrow> jstring \<Rightarrow> jstring list list" where
  "matchAll re [] = (case rmatch re [] of Some (gs, r) \<Rightarrow> [gs] | None \<Rightarrow> [])"
| "matchAll re (c # cs) =
     (case rmatch re (c # cs) of
        Some (gs, r) \<Rightarrow>
          (if length r \<le> length cs then gs # matchAll re r else gs # matchAll re cs)
      | None \<Rightarrow> matchAll re cs)"
  by pat_completeness auto
termination
  by (relation "measure (\<lambda>(re, s). length s)") auto

function replaceAll :: "item list \<Rightarrow> jstring \<Rightarrow> jstring \<Rightarrow> jstring" where
  "replaceAll re rep [] = (case rmatch re [] of Some (gs, r) \<Rightarrow> rep | None \<Rightarrow> [])"
| "replaceAll re rep (c # cs) =
     (case rmatch re (c # cs) of
        Some (gs, r) \<Rightarrow>
          (if length r \<le> length cs then rep @ replaceAll re rep r
           else rep @ c # replaceAll re rep cs)
      | None \<Rightarrow> c # replaceAll re rep cs)"
  by pat_completeness auto
termination
  by (relation "measure (\<lambda>(re, rep, s). length s)") auto

text \<open>A pattern no proper suffix of which is a prefix of it.\<close>

fun proper_suffixes :: "'a list \<Rightarrow> 'a list list" where
  "proper_suffixes [] = []"
| "proper_suffixes (x # xs) = (if xs = [] then [] else xs # proper_suffixes xs)"

definition unbordered :: "jstring \<Rightarrow> bool" where
  "unbordered pat = list_all (\<lambda>t. \<not> prefix t pat) (proper_suffixes pat)"


section \<open>Chart extraction (data-visualization.tsx)\<close>

text \<open>\<open>/```chart-data\n([\s\S]*?)\n```/g\<close>; the capture group is the second item.\<close>

definition chart_open :: jstring where
  "chart_open = js ''```chart-data\<newline>''"

definition chart_close :: jstring where
  "chart_close = js ''\<newline>```''"

definition chartDataRegex :: "item list" where
  "chartDataRegex = [Lit chart_open, Lazy (\<lambda>c. True), Lit chart_close]"

text \<open>
  \<open>JSON.parse\<close> is a parameter: it either throws a \<open>SyntaxError\<close> or returns a value,
  which is \<open>null\<close> (\<open>None\<close>) or a value that the source casts to \<open>ChartData\<close> unchecked.
\<close>

datatype js_error = SyntaxError

text \<open>
  \<open>Array.prototype.map\<close> with a callback that may throw: the first exception propagates.
\<close>

fun map_throwing :: "('a \<Rightarrow> js_error + 'b) \<Rightarrow> 'a list \<Rightarrow> js_error + 'b list" where
  "map_throwing f [] = Inr []"
| "map_throwing f (x # xs) =
     (case f x of
        Inl e \<Rightarrow> Inl e
      | Inr y \<Rightarrow> (case map_throwing f xs of Inl e \<Rightarrow> Inl e | Inr ys \<Rightarrow> Inr (y # ys)))"

text \<open>
  The callback of \<open>matches.map\<close>: \<open>try { return JSON.parse(match[1]) } catch (err)
  { console.error(..., err); return null }\<close>. The second component is what the call wrote
  to the console.
\<close>

definition parse_match ::
  "(jstring \<Rightarrow> js_error + 'j option) \<Rightarrow> jstring list \<Rightarrow> js_error + ('j option \<times> js_error list)" where
  "parse_match JSON_parse m =
     (case JSON_parse (m ! 1) of
        Inl err \<Rightarrow> Inr (None, [err])
      | Inr v \<Rightarrow> Inr (v, []))"

text \<open>
  The result is an exception (\<open>Inl\<close>) or the charts returned together with the console
  output.
\<close>

definition parseChartDataFromResponse ::
  "(jstring \<Rightarrow> js_error + 'j option) \<Rightarrow> jstring \<Rightarrow> js_error + ('j list \<times> js_error list)" where
  "parseChartDataFromResponse JSON_parse analysisText =
     (let matches = matchAll chartDataRegex analysisText in
      if length matches = 0 then Inr ([], [])
      else (case map_throwing (parse_match JSON_parse) matches of
              Inl e \<Rightarrow> Inl e
            | Inr rs \<Rightarrow>
                Inr (map the (filter (\<lambda>chart. chart \<noteq> None) (map fst rs)),
                     concat (map snd rs))))"

text \<open>
  The charts that \<open>parseChartDataFromResponse\<close> returns, and what it writes to the
  console, as functions of the matches.
\<close>

definition extracted_charts :: "(jstring \<Rightarrow> js_error + 'j option) \<Rightarrow> jstring \<Rightarrow> 'j list" where
  "extracted_charts jp s =
     map the (filter (\<lambda>chart. chart \<noteq> None)
       (map (\<lambda>m. case jp (m ! 1) of Inl err \<Rightarrow> None | Inr v \<Rightarrow> v) (matchAll chartDataRegex s)))"

definition logged_errors :: "(jstring \<Rightarrow> js_error + 'j option) \<Rightarrow> jstring \<Rightarrow> js_error list" where
  "logged_errors jp s =
     concat (map (\<lambda>m. case jp (m ! 1) of Inl err \<Rightarrow> [err] | Inr v \<Rightarrow> [])
       (matchAll chartDataRegex s))"


section \<open>Response formatting (data-analysis-interface.tsx)\<close>

text \<open>
  \<open>/```chart-data\n[\s\S]*?\n```/g\<close>, \<open>/```\s*```/g\<close>, \<open>/\n{3,}/g\<close> (three line feeds, then as
  many as follow) and \<open>/---\s*\n\s*\n/g\<close>.
\<close>

definition fence :: jstring where
  "fence = js ''```''"

definition emptyBlockRegex :: "item list" where
  "emptyBlockRegex = [Lit fence, Star is_space, Lit fence]"

definition lineBreaksRegex :: "item list" where
  "lineBreaksRegex = [Lit [10, 10, 10], Star (\<lambda>c. c = 10)]"

definition ruleRegex :: "item list" where
  "ruleRegex = [Lit (js ''---''), Star is_space, Lit [10], Star is_space, Lit [10]]"

definition formatAIResponse :: "jstring \<Rightarrow> jstring" where
  "formatAIResponse content =
     (let cleanedContent = replaceAll chartDataRegex [] content;
          noEmptyBlocks = replaceAll emptyBlockRegex [] cleanedContent
      in trim (replaceAll ruleRegex (js ''---\<newline>'')
                 (replaceAll lineBreaksRegex [10, 10] noEmptyBlocks)))"

text \<open>
  The steps of \<open>formatAIResponse\<close> after the removal of the chart blocks: empty fences
  are removed, three or more line breaks become two, the white space after a rule is
  cleaned, and the text is trimmed.
\<close>

definition tidy :: "jstring \<Rightarrow> jstring" where
  "tidy s =
     trim (replaceAll ruleRegex (js ''---\<newline>'')
             (replaceAll lineBreaksRegex [10, 10] (replaceAll emptyBlockRegex [] s)))"

text \<open>
  Where \<open>/---\s*\n\s*\n/\<close> matches at the head of a text: after three dashes, the run of
  white space holds at least two line feeds.
\<close>

definition rule_head :: "jstring \<Rightarrow> bool" where
  "rule_head t =
     (prefix (js ''---'') t \<and> 2 \<le> count_list (takeWhile is_space (drop 3 t)) 10)"


section \<open>Texts made of prose and chart blocks\<close>

text \<open>
  The text of a list of chart blocks, each a body between the opening and the closing
  fence, followed by the prose after it.
\<close>

fun blocks_text :: "(jstring \<times> jstring) list \<Rightarrow> jstring" where
  "blocks_text [] = []"
| "blocks_text ((body, prose) # bs) = chart_open @ body @ chart_close @ prose @ blocks_text bs"

text \<open>
  The prose before the first block and after each block does not contain the opening
  fence, and no body contains the closing fence.
\<close>

definition well_delimited :: "jstring \<Rightarrow> (jstring \<times> jstring) list \<Rightarrow> bool" where
  "well_delimited p0 bs =
     (\<not> sublist chart_open p0
      \<and> list_all (\<lambda>(body, prose). \<not> sublist chart_close body \<and> \<not> sublist chart_open prose) bs)"


section \<open>Backend calls (services/api.ts)\<close>

text \<open>
  What \<open>fetch\<close> did: the promise was rejected (network unreachable), or a response arrived
  with a status and a body; the body is \<open>None\<close> when \<open>response.json()\<close> is rejected.
\<close>

datatype 'a http_outcome = FetchRejected | Response nat "'a option"

datatype api_error = NetworkError | HttpError nat | BodyError

text \<open>
  The responses of \<open>api.ts\<close>. \<open>rows\<close> is the number of rows of the uploaded table: a
  \<open>number\<close> in the code, a natural number here (a response whose \<open>rows\<close> is negative,
  fractional or not a number is outside the model).
\<close>

record summary =
  rows :: nat
  columns :: "jstring list"
  data_types :: "(jstring \<times> jstring) list"

record 'j UploadResponse =
  file_id :: jstring
  filename :: jstring
  summary :: summary
  data_preview :: "(jstring \<times> 'j) list list"

record ChatResponse =
  chat_file_id :: jstring
  chat_filename :: jstring
  analysis :: jstring

text \<open>
  \<open>uploadFile\<close> and \<open>sendChatMessage\<close>: \<open>if (!response.ok) throw new Error(...)\<close>, else
  \<open>return response.json()\<close>; \<open>response.ok\<close> is a status from 200 to 299.
\<close>

definition response_ok :: "nat \<Rightarrow> bool" where
  "response_ok status = (200 \<le> status \<and> status \<le> 299)"

definition uploadFile :: "'a http_outcome \<Rightarrow> api_error + 'a" where
  "uploadFile outcome =
     (case outcome of
        FetchRejected \<Rightarrow> Inl NetworkError
      | Response status body \<Rightarrow>
          (if \<not> response_ok status then Inl (HttpError status)
           else (case body of None \<Rightarrow> Inl BodyError | Some d \<Rightarrow> Inr d)))"

definition sendChatMessage :: "'a http_outcome \<Rightarrow> api_error + 'a" where
  "sendChatMessage outcome =
     (case outcome of
        FetchRejected \<Rightarrow> Inl NetworkError
      | Response status body \<Rightarrow>
          (if \<not> response_ok status then Inl (HttpError status)
           else (case body of None \<Rightarrow> Inl BodyError | Some d \<Rightarrow> Inr d)))"


section \<open>The component state (data-analysis-interface.tsx)\<close>

datatype role = User | Assistant

record 'j message =
  role :: role
  content :: jstring
  formattedContent :: "jstring option"
  timestamp :: jstring
  charts :: "'j list option"
  isTyping :: "bool option"

datatype toast = ToastError jstring | ToastSuccess jstring

datatype request = UploadRequest jstring | ChatRequest jstring jstring

text \<open>
  A pending \<open>setTimeout(typeNextCharacter, ...)\<close> of one call of \<open>simulateTyping\<close>: the \<open>text\<close>
  and the cursor \<open>index\<close> of its closure, and what the completion callback of
  \<open>sendMessage\<close> captured (the timestamp of the placeholder and the raw reply; the
  formatted content it writes is the text).
\<close>

record typing_timer =
  full_text :: jstring
  index :: nat
  placeholder :: jstring
  raw_reply :: jstring

text \<open>
  The React state variables, followed by the environment of the component: the toasts
  shown, the console output, every \<open>fetch\<close> made, the uploads awaiting their response
  (each with the flag that its progress interval is still running), the number of chat
  calls awaiting their response, the pending \<open>setTimeout(() => setIsUploading(false), 500)\<close>
  and the pending typing timers.
\<close>

record 'j state =
  activeFileId :: "jstring option"
  fileData :: "'j UploadResponse option"
  messages :: "'j message list"
  newMessage :: jstring
  isUploading :: bool
  isSending :: bool
  uploadProgress :: nat
  visualizationCharts :: "'j list"
  typingText :: jstring
  isTypingState :: bool
  fullResponse :: jstring
  toasts :: "toast list"
  console :: "jstring list"
  network :: "request list"
  uploads :: "bool list"
  chats :: nat
  hideTimers :: nat
  timers :: "typing_timer list"

definition initial :: "'j state" where
  "initial = \<lparr> activeFileId = None, fileData = None, messages = [], newMessage = [],
     isUploading = False, isSending = False, uploadProgress = 0, visualizationCharts = [],
     typingText = [], isTypingState = False, fullResponse = [], toasts = [], console = [],
     network = [], uploads = [], chats = 0, hideTimers = 0, timers = [] \<rparr>"


section \<open>Upload (handleFileUpload)\<close>

text \<open>
  \<open>String.prototype.toLowerCase\<close> is a parameter of the model. \<open>endsWith\<close> is
  \<open>String.prototype.endsWith\<close>.
\<close>

definition endsWith :: "jstring \<Rightarrow> jstring \<Rightarrow> bool" where
  "endsWith s searchString = suffix searchString s"

text \<open>
  A number in a template literal, for the counts of the upload response. JavaScript
  prints a number that is a non-negative integer below \<open>2^53\<close> (the integers it holds
  exactly) by its decimal digits, and \<open>numberToString\<close> is that printing. Larger
  numbers are printed by JavaScript with rounded digits, and from \<open>10^21\<close> on in exponent
  form; \<open>numberToString\<close> is not their printing, and the statements about the
  welcome text are for counts below \<open>2^53\<close>. The length of an array is below \<open>2^32\<close>.
\<close>

fun numberToString :: "nat \<Rightarrow> jstring" where
  "numberToString n =
     (if n < 10 then [48 + n] else numberToString (n div 10) @ [48 + n mod 10])"

declare numberToString.simps [simp del]

definition welcomeMessage :: "'j UploadResponse \<Rightarrow> jstring" where
  "welcomeMessage data =
     js ''**File Analysis Complete!**\<newline>\<newline>I've processed your file '' @ [34] @ js ''**''
     @ filename data @ js ''**'' @ [34]
     @ js ''. \<newline>\<newline>Here's a summary of your data:\<newline>* **Rows:** ''
     @ numberToString (rows (summary data))
     @ js ''\<newline>* **Columns:** ''
     @ numberToString (length (columns (summary data)))
     @ js ''\<newline>\<newline>How can I help you analyze this data? You can ask me to:\<newline>* Generate visualizations\<newline>* Calculate statistics\<newline>* Find trends or patterns\<newline>* Summarize key insights''"

text \<open>
  The handler up to \<open>await uploadFile(file)\<close>. \<open>file\<close> is the name of
  \<open>event.target.files?.[0]\<close>, or \<open>None\<close> when there is no file.
\<close>

definition handleFileUpload :: "(jstring \<Rightarrow> jstring) \<Rightarrow> jstring option \<Rightarrow> 'j state \<Rightarrow> 'j state" where
  "handleFileUpload toLowerCase file st =
     (case file of
        None \<Rightarrow> st
      | Some name \<Rightarrow>
          (let fileName = toLowerCase name in
           if \<not> endsWith fileName (js ''.xlsx'') \<and> \<not> endsWith fileName (js ''.xls'')
              \<and> \<not> endsWith fileName (js ''.csv'')
           then st\<lparr>toasts := toasts st
                  @ [ToastError (js ''Please upload an Excel file (.xlsx, .xls) or CSV file (.csv)'')]\<rparr>
           else st\<lparr>isUploading := True, uploadProgress := 0,
                  uploads := uploads st @ [True],
                  network := network st @ [UploadRequest name]\<rparr>))"

text \<open>The callback of \<open>setInterval\<close> of the upload at position \<open>i\<close>.\<close>

definition progressTick :: "nat \<Rightarrow> 'j state \<Rightarrow> 'j state" where
  "progressTick i st =
     (if i < length (uploads st) \<and> uploads st ! i
      then (if uploadProgress st \<ge> 95 then st\<lparr>uploads := (uploads st)[i := False]\<rparr>
            else st\<lparr>uploadProgress := uploadProgress st + 5\<rparr>)
      else st)"

text \<open>
  The handler from the point where \<open>await uploadFile(file)\<close> settles, for the upload at
  position \<open>i\<close>: the \<open>try\<close> block after the call, the \<open>catch\<close> block and the \<open>finally\<close>
  block. \<open>now\<close> is \<open>new Date().toISOString()\<close>.
\<close>

definition uploadSettled ::
  "nat \<Rightarrow> 'j UploadResponse http_outcome \<Rightarrow> jstring \<Rightarrow> 'j state \<Rightarrow> 'j state" where
  "uploadSettled i outcome now st =
     (if i < length (uploads st)
      then (let st1 =
                 (case uploadFile outcome of
                    Inr data \<Rightarrow>
                      st\<lparr>fileData := Some data, activeFileId := Some (file_id data),
                         messages := [\<lparr>role = Assistant, content = welcomeMessage data,
                                       formattedContent = Some (welcomeMessage data),
                                       timestamp = now, charts = None, isTyping = None\<rparr>],
                         toasts := toasts st @ [ToastSuccess (js ''File uploaded successfully!'')]\<rparr>
                  | Inl err \<Rightarrow>
                      st\<lparr>console := console st @ [js ''Error uploading file:''],
                         toasts := toasts st
                           @ [ToastError (js ''Failed to upload file. Please try again.'')]\<rparr>)
            in st1\<lparr>uploads := take i (uploads st1) @ drop (Suc i) (uploads st1),
                   uploadProgress := 100, hideTimers := hideTimers st1 + 1\<rparr>)
      else st)"

text \<open>\<open>setTimeout(() => setIsUploading(false), 500)\<close> fires.\<close>

definition hideUpload :: "'j state \<Rightarrow> 'j state" where
  "hideUpload st =
     (if hideTimers st > 0 then st\<lparr>isUploading := False, hideTimers := hideTimers st - 1\<rparr>
      else st)"


section \<open>Typing effect (simulateTyping)\<close>

definition simulateTyping :: "jstring \<Rightarrow> jstring \<Rightarrow> jstring \<Rightarrow> 'j state \<Rightarrow> 'j state" where
  "simulateTyping txt ts raw st =
     st\<lparr>isTypingState := True, typingText := [], fullResponse := txt,
        timers := timers st @ [\<lparr>full_text = txt, index = 0, placeholder = ts, raw_reply = raw\<rparr>]\<rparr>"

text \<open>
  The completion callback that \<open>sendMessage\<close> passes to \<open>simulateTyping\<close>:
  \<open>prev.map(msg => msg.timestamp === timestamp ? {...msg, content: data.analysis,
  formattedContent, isTyping: false} : msg)\<close>.
\<close>

definition onTypingComplete ::
  "jstring \<Rightarrow> jstring \<Rightarrow> jstring \<Rightarrow> 'j message list \<Rightarrow> 'j message list" where
  "onTypingComplete ts raw formatted prev =
     map (\<lambda>msg. if timestamp msg = ts
                then msg\<lparr>content := raw, formattedContent := Some formatted, isTyping := Some False\<rparr>
                else msg) prev"

definition chunkSize :: "jstring \<Rightarrow> nat" where
  "chunkSize txt =
     (if length txt > 2000 then 10
      else if length txt > 1000 then 8
      else if length txt > 500 then 5
      else 3)"

text \<open>
  \<open>typeNextCharacter\<close> of the pending timer at position \<open>i\<close>. Scrolling acts on the
  document only and is left out.
\<close>

definition typeNextCharacter :: "nat \<Rightarrow> 'j state \<Rightarrow> 'j state" where
  "typeNextCharacter i st =
     (if i < length (timers st)
      then (let t = timers st ! i in
            if index t < length (full_text t)
            then (let endIndex = min (index t + chunkSize (full_text t)) (length (full_text t));
                      chunk = take (endIndex - index t) (drop (index t) (full_text t))
                  in st\<lparr>typingText := typingText st @ chunk,
                        timers := (timers st)[i := t\<lparr>index := endIndex\<rparr>]\<rparr>)
            else st\<lparr>isTypingState := False,
                   messages := onTypingComplete (placeholder t) (raw_reply t) (full_text t)
                                 (messages st),
                   timers := take i (timers st) @ drop (Suc i) (timers st)\<rparr>)
      else st)"


section \<open>Sending a message (sendMessage)\<close>

text \<open>\<open>!activeFileId\<close>: \<open>null\<close> and the empty string are falsy.\<close>

definition falsy :: "jstring option \<Rightarrow> bool" where
  "falsy x = (x = None \<or> x = Some [])"

text \<open>\<open>messageText || newMessage\<close>; \<open>None\<close> is the call without an argument.\<close>

definition messageContent :: "jstring option \<Rightarrow> 'j state \<Rightarrow> jstring" where
  "messageContent messageText st =
     (case messageText of
        None \<Rightarrow> newMessage st
      | Some t \<Rightarrow> if t = [] then newMessage st else t)"

text \<open>The function up to \<open>await sendChatMessage(...)\<close>.\<close>

definition sendMessage :: "jstring option \<Rightarrow> jstring \<Rightarrow> 'j state \<Rightarrow> 'j state" where
  "sendMessage messageText now st =
     (if trim (messageContent messageText st) = [] \<or> falsy (activeFileId st) then st
      else st\<lparr>messages := messages st
                 @ [\<lparr>role = User, content = messageContent messageText st,
                      formattedContent = None, timestamp = now, charts = None,
                      isTyping = None\<rparr>],
              newMessage := [], isSending := True,
              network := network st
                 @ [ChatRequest (the (activeFileId st)) (messageContent messageText st)],
              chats := chats st + 1\<rparr>)"

text \<open>The \<open>catch\<close> block of \<open>sendMessage\<close>.\<close>

definition sendFailed :: "jstring \<Rightarrow> 'j state \<Rightarrow> 'j state" where
  "sendFailed now st =
     st\<lparr>console := console st @ [js ''Error sending message:''],
        toasts := toasts st @ [ToastError (js ''Failed to get a response. Please try again.'')],
        messages := messages st
          @ [\<lparr>role = Assistant,
               content = js ''**Sorry!** I encountered an error. Please try again.'',
               formattedContent = Some (js ''**Sorry!** I encountered an error. Please try again.''),
               timestamp = now, charts = None, isTyping = None\<rparr>]\<rparr>"

text \<open>
  The function from the point where \<open>await sendChatMessage(...)\<close> settles: the \<open>try\<close>
  block after the call, the \<open>catch\<close> block and the \<open>finally\<close> block.
\<close>

definition chatSettled ::
  "(jstring \<Rightarrow> js_error + 'j option) \<Rightarrow> ChatResponse http_outcome \<Rightarrow> jstring \<Rightarrow> 'j state
     \<Rightarrow> 'j state" where
  "chatSettled JSON_parse outcome now st =
     (if chats st = 0 then st
      else (let st0 = st\<lparr>chats := chats st - 1\<rparr>;
                st1 =
                  (case sendChatMessage outcome of
                     Inl err \<Rightarrow> sendFailed now st0
                   | Inr data \<Rightarrow>
                       (case parseChartDataFromResponse JSON_parse (analysis data) of
                          Inl err \<Rightarrow> sendFailed now st0
                        | Inr (chs, logged) \<Rightarrow>
                            (let st2 = st0\<lparr>console := console st0
                                         @ map (\<lambda>err. js ''Failed to parse chart data:'') logged\<rparr>;
                                 st3 = (if length chs > 0 then st2\<lparr>visualizationCharts := chs\<rparr>
                                        else st2);
                                 formatted = formatAIResponse (analysis data);
                                 newMsg = \<lparr>role = Assistant, content = [],
                                           formattedContent = Some [], timestamp = now,
                                           charts = (if length chs > 0 then Some chs else None),
                                           isTyping = Some True\<rparr>
                             in simulateTyping formatted now (analysis data)
                                  (st3\<lparr>messages := messages st3 @ [newMsg]\<rparr>))))
            in st1\<lparr>isSending := False\<rparr>))"

text \<open>\<open>handleInsightClick\<close>: \<open>setNewMessage(insight); sendMessage(insight)\<close>.\<close>

definition handleInsightClick :: "jstring \<Rightarrow> jstring \<Rightarrow> 'j state \<Rightarrow> 'j state" where
  "handleInsightClick insight now st =
     (if trim (messageContent (Some insight) st) = [] \<or> falsy (activeFileId st)
      then st\<lparr>newMessage := insight\<rparr>
      else sendMessage (Some insight) now st)"


section \<open>Sessions\<close>

text \<open>
  What can happen to the component. The user interface decides which user events are
  possible: the file input is rendered only while \<open>!activeFileId\<close> and is disabled while
  \<open>isUploading\<close>; the chat card is rendered otherwise, its text area (which sends on
  Enter) is disabled while \<open>isSending\<close>, its submit button is disabled while \<open>isSending\<close>
  or while the text is blank, and the insight badges are always enabled. An event that
  the interface does not offer leaves the state as it is.
\<close>

datatype 'j event =
    FileChosen "jstring option"
  | UploadSettled nat "'j UploadResponse http_outcome" jstring
  | ProgressTick nat
  | HideUpload
  | Input jstring
  | Submit jstring
  | InsightClick jstring jstring
  | ChatSettled "ChatResponse http_outcome" jstring
  | TypingTick nat

fun step ::
  "(jstring \<Rightarrow> jstring) \<Rightarrow> (jstring \<Rightarrow> js_error + 'j option) \<Rightarrow> 'j event \<Rightarrow> 'j state \<Rightarrow> 'j state" where
  "step lc jp (FileChosen file) st =
     (if falsy (activeFileId st) \<and> \<not> isUploading st then handleFileUpload lc file st else st)"
| "step lc jp (UploadSettled i outcome now) st = uploadSettled i outcome now st"
| "step lc jp (ProgressTick i) st = progressTick i st"
| "step lc jp HideUpload st = hideUpload st"
| "step lc jp (Input t) st =
     (if \<not> falsy (activeFileId st) \<and> \<not> isSending st then st\<lparr>newMessage := t\<rparr> else st)"
| "step lc jp (Submit now) st =
     (if \<not> falsy (activeFileId st) \<and> \<not> isSending st then sendMessage None now st else st)"
| "step lc jp (InsightClick insight now) st =
     (if \<not> falsy (activeFileId st) then handleInsightClick insight now st else st)"
| "step lc jp (ChatSettled outcome now) st = chatSettled jp outcome now st"
| "step lc jp (TypingTick i) st = typeNextCharacter i st"

fun run ::
  "(jstring \<Rightarrow> jstring) \<Rightarrow> (jstring \<Rightarrow> js_error + 'j option) \<Rightarrow> 'j event list \<Rightarrow> 'j state \<Rightarrow> 'j state" where
  "run lc jp [] st = st"
| "run lc jp (e # es) st = run lc jp es (step lc jp e st)"


section \<open>A reveal run to its end\<close>

text \<open>
  The chain of timer callbacks of one call of \<open>simulateTyping\<close>: \<open>typeNextCharacter\<close>
  schedules itself again as long as the cursor is before the end of the text; the call
  that finds the cursor at the end runs the completion callback and schedules nothing.
  \<open>run_typing i\<close> fires the timer at position \<open>i\<close> until then.
\<close>

function run_typing :: "nat \<Rightarrow> 'j state \<Rightarrow> 'j state" where
  "run_typing i st =
     (if i < length (timers st) \<and> index (timers st ! i) < length (full_text (timers st ! i))
      then run_typing i (typeNextCharacter i st)
      else typeNextCharacter i st)"
  by pat_completeness auto
termination
  by (relation "measure (\<lambda>(i, st). length (full_text (timers st ! i)) - index (timers st ! i))")
     (auto simp: typeNextCharacter_def Let_def chunkSize_def)

declare run_typing.simps [simp del]


section \<open>Messages being typed\<close>

definition typing_messages :: "'j state \<Rightarrow> 'j message list" where
  "typing_messages st = filter (\<lambda>m. isTyping m = Some True) (messages st)"

text \<open>
  A session in which every response to a chat call arrives while no typing timer is
  pending.
\<close>

fun replies_apart ::
  "(jstring \<Rightarrow> jstring) \<Rightarrow> (jstring \<Rightarrow> js_error + 'j option) \<Rightarrow> 'j event list \<Rightarrow> 'j state \<Rightarrow> bool" where
  "replies_apart lc jp [] st = True"
| "replies_apart lc jp (e # es) st =
     ((case e of ChatSettled outcome now \<Rightarrow> timers st = [] | _ \<Rightarrow> True)
      \<and> replies_apart lc jp es (step lc jp e st))"

text \<open>
  The timestamps of the messages being typed are among the timestamps that the pending
  typing timers will finish, counted with multiplicity.
\<close>

definition typing_covered :: "'j state \<Rightarrow> bool" where
  "typing_covered st =
     (image_mset timestamp (mset (typing_messages st))
        \<subseteq># image_mset placeholder (mset (timers st)))"


section \<open>The upload control is offered once\<close>



section \<open>Examples\<close>

text \<open>
  A stand-in for \<open>JSON.parse\<close> in the examples: \<open>null\<close> is parsed to \<open>null\<close>, a text in
  braces is taken as an object (the value is the text itself), anything else is a
  syntax error.
\<close>

definition example_parse :: "jstring \<Rightarrow> js_error + jstring option" where
  "example_parse s =
     (if s = js ''null'' then Inr None
      else if s \<noteq> [] \<and> hd s = 123 \<and> last s = 125 then Inr (Some s)
      else Inl SyntaxError)"

text \<open>A stand-in for \<open>toLowerCase\<close> in the examples: it lowers the letters A to Z.\<close>

definition example_lower :: "jstring \<Rightarrow> jstring" where
  "example_lower s = map (\<lambda>c. if 65 \<le> c \<and> c \<le> 90 then c + 32 else c) s"

text \<open>The upload response of the \<open>sales.csv\<close> scenario.\<close>

definition example_sales :: "jstring UploadResponse" where
  "example_sales =
     \<lparr>file_id = js ''f1'', filename = js ''sales.csv'',
      summary = \<lparr>rows = 3, columns = [js ''region'', js ''revenue''],
                 data_types = [(js ''region'', js ''object''), (js ''revenue'', js ''int64'')]\<rparr>,
      data_preview = []\<rparr>"

text \<open>A chat response of the examples, with the reply \<open>Hello there.\<close>\<close>

definition example_reply :: "ChatResponse http_outcome" where
  "example_reply =
     Response 200 (Some \<lparr>chat_file_id = js ''f1'', chat_filename = js ''sales.csv'',
                          analysis = js ''Hello there.''\<rparr>)"



section \<open>Chart extraction never throws\<close>

lemma map_throwing_parse_match:
  "(case map_throwing (parse_match jp) ms of
      Inl e \<Rightarrow> Inl e
    | Inr rs \<Rightarrow> Inr (map the (filter (\<lambda>chart. chart \<noteq> None) (map fst rs)), concat (map snd rs)))
   = Inr (map the (filter (\<lambda>chart. chart \<noteq> None)
            (map (\<lambda>m. case jp (m ! 1) of Inl err \<Rightarrow> None | Inr v \<Rightarrow> v) ms)),
          concat (map (\<lambda>m. case jp (m ! 1) of Inl err \<Rightarrow> [err] | Inr v \<Rightarrow> []) ms))"
  by (induction ms) (auto simp: parse_match_def split: sum.splits)

lemma parse_charts_eq:
  "parseChartDataFromResponse jp s =
     Inr (map the (filter (\<lambda>chart. chart \<noteq> None)
            (map (\<lambda>m. case jp (m ! 1) of Inl err \<Rightarrow> None | Inr v \<Rightarrow> v)
               (matchAll chartDataRegex s))),
          concat (map (\<lambda>m. case jp (m ! 1) of Inl err \<Rightarrow> [err] | Inr v \<Rightarrow> [])
            (matchAll chartDataRegex s)))"
  unfolding parseChartDataFromResponse_def Let_def map_throwing_parse_match
  by simp

lemma parse_eq:
  "parseChartDataFromResponse jp s = Inr (extracted_charts jp s, logged_errors jp s)"
  by (simp add: parse_charts_eq extracted_charts_def logged_errors_def)

text \<open>
  C10. For every text and every behaviour of \<open>JSON.parse\<close>, \<open>parseChartDataFromResponse\<close>
  returns a list of charts and does not throw: a body on which \<open>JSON.parse\<close> throws
  becomes \<open>null\<close> (and one line on the console), and the result is the list of the values
  that are not \<open>null\<close>, in the order of the matches.
\<close>

theorem parse_never_throws:
  "parseChartDataFromResponse JSON_parse analysisText =
     Inr (map the (filter (\<lambda>chart. chart \<noteq> None)
            (map (\<lambda>m. case JSON_parse (m ! 1) of Inl err \<Rightarrow> None | Inr v \<Rightarrow> v)
               (matchAll chartDataRegex analysisText))),
          concat (map (\<lambda>m. case JSON_parse (m ! 1) of Inl err \<Rightarrow> [err] | Inr v \<Rightarrow> [])
            (matchAll chartDataRegex analysisText)))"
  by (rule parse_charts_eq)

lemma example_matches:
  "matchAll chartDataRegex
     (js ''a```chart-data\<newline>{x\<newline>```b```chart-data\<newline>{}\<newline>```'')
   = [[chart_open, js ''{x'', chart_close], [chart_open, js ''{}'', chart_close]]"
  by (simp add: chartDataRegex_def chart_open_def chart_close_def js_def)

theorem parse_never_throws_witness:
  "parseChartDataFromResponse example_parse
     (js ''a```chart-data\<newline>{x\<newline>```b```chart-data\<newline>{}\<newline>```'')
   = Inr ([js ''{}''], [SyntaxError])"
  using parse_never_throws [of example_parse
    "js ''a```chart-data\<newline>{x\<newline>```b```chart-data\<newline>{}\<newline>```''"]
  unfolding example_matches
  by (simp add: example_parse_def js_def)

section \<open>Update by timestamp\<close>

lemma onTypingComplete_length:
  "length (onTypingComplete ts raw formatted msgs) = length msgs"
  by (simp add: onTypingComplete_def)

lemma onTypingComplete_no_match:
  "\<forall>m \<in> set msgs. timestamp m \<noteq> ts \<Longrightarrow> onTypingComplete ts raw formatted msgs = msgs"
  by (induction msgs) (auto simp: onTypingComplete_def)

lemma onTypingComplete_unique:
  "i < length msgs \<Longrightarrow> timestamp (msgs ! i) = ts \<Longrightarrow>
   \<forall>j < length msgs. j \<noteq> i \<longrightarrow> timestamp (msgs ! j) \<noteq> ts \<Longrightarrow>
   onTypingComplete ts raw formatted msgs =
     msgs[i := (msgs ! i)\<lparr>content := raw, formattedContent := Some formatted,
                          isTyping := Some False\<rparr>]"
  by (rule nth_equalityI) (auto simp: onTypingComplete_def nth_list_update)

text \<open>
  C8. The update by timestamp that finishes a reveal is a total function on stores (it
  has no error result) and keeps the number of messages. When no message has the
  timestamp, the store is returned as it is. When exactly one message has it, that
  message is replaced by a copy in which \<open>content\<close>, \<open>formattedContent\<close> and \<open>isTyping\<close>
  are overwritten and \<open>role\<close>, \<open>timestamp\<close> and \<open>charts\<close> are kept, and every other
  message is as before.
\<close>

theorem update_by_timestamp:
  "length (onTypingComplete ts raw formatted msgs) = length msgs
   \<and> ((\<forall>m \<in> set msgs. timestamp m \<noteq> ts) \<longrightarrow> onTypingComplete ts raw formatted msgs = msgs)
   \<and> (\<forall>i < length msgs.
        timestamp (msgs ! i) = ts \<and> (\<forall>j < length msgs. j \<noteq> i \<longrightarrow> timestamp (msgs ! j) \<noteq> ts) \<longrightarrow>
        onTypingComplete ts raw formatted msgs =
          msgs[i := (msgs ! i)\<lparr>content := raw, formattedContent := Some formatted,
                               isTyping := Some False\<rparr>])"
  using onTypingComplete_length onTypingComplete_no_match onTypingComplete_unique
  by blast

theorem update_by_timestamp_witness:
  "onTypingComplete (js ''t3'') (js ''raw'') (js ''shown'')
     [\<lparr>role = User, content = js ''q'', formattedContent = None, timestamp = js ''t1'',
        charts = None, isTyping = None\<rparr>,
      \<lparr>role = Assistant, content = [], formattedContent = Some [], timestamp = js ''t2'',
        charts = Some [js ''{}''], isTyping = Some True\<rparr>]
   = [\<lparr>role = User, content = js ''q'', formattedContent = None, timestamp = js ''t1'',
        charts = None, isTyping = None\<rparr>,
      \<lparr>role = Assistant, content = [], formattedContent = Some [], timestamp = js ''t2'',
        charts = Some [js ''{}''], isTyping = Some True\<rparr>]
   \<and> onTypingComplete (js ''t2'') (js ''raw'') (js ''shown'')
     [\<lparr>role = User, content = js ''q'', formattedContent = None, timestamp = js ''t1'',
        charts = None, isTyping = None\<rparr>,
      \<lparr>role = Assistant, content = [], formattedContent = Some [], timestamp = js ''t2'',
        charts = Some [js ''{}''], isTyping = Some True\<rparr>]
   = [\<lparr>role = User, content = js ''q'', formattedContent = None, timestamp = js ''t1'',
        charts = None, isTyping = None\<rparr>,
      \<lparr>role = Assistant, content = js ''raw'', formattedContent = Some (js ''shown''),
        timestamp = js ''t2'', charts = Some [js ''{}''], isTyping = Some False\<rparr>]"
  using update_by_timestamp [of "js ''t3''" "js ''raw''" "js ''shown''"
      "[\<lparr>role = User, content = js ''q'', formattedContent = None, timestamp = js ''t1'',
          charts = None, isTyping = None\<rparr>,
        \<lparr>role = Assistant, content = [], formattedContent = Some [], timestamp = js ''t2'',
          charts = Some [js ''{}''], isTyping = Some True\<rparr>]"]
    update_by_timestamp [of "js ''t2''" "js ''raw''" "js ''shown''"
      "[\<lparr>role = User, content = js ''q'', formattedContent = None, timestamp = js ''t1'',
          charts = None, isTyping = None\<rparr>,
        \<lparr>role = Assistant, content = [], formattedContent = Some [], timestamp = js ''t2'',
          charts = Some [js ''{}''], isTyping = Some True\<rparr>]"]
  by (simp add: js_def nth_Cons' All_less_Suc)

section \<open>Upload\<close>







lemma sales_uploading:
  "run example_lower example_parse [FileChosen (Some (js ''sales.csv''))] initial
   = (initial :: jstring state)\<lparr>isUploading := True, uploads := [True],
        network := [UploadRequest (js ''sales.csv'')]\<rparr>"
  by (simp add: initial_def falsy_def handleFileUpload_def endsWith_def example_lower_def js_def
        suffix_to_prefix)



text \<open>
  C9. When the upload at position \<open>i\<close> of the uploads awaiting their response (those
  that passed the check of the file name) fails, because \<open>fetch\<close> was rejected or the
  status is not from 200 to 299, the dataset, the active file and the messages are as
  before, and one error toast is shown.
\<close>

theorem upload_failure:
  assumes "i < length (uploads st)"
    and "outcome = FetchRejected \<or> (\<exists>status body. outcome = Response status body \<and> \<not> response_ok status)"
  shows "fileData (uploadSettled i outcome now st) = fileData st
     \<and> activeFileId (uploadSettled i outcome now st) = activeFileId st
     \<and> messages (uploadSettled i outcome now st) = messages st
     \<and> visualizationCharts (uploadSettled i outcome now st) = visualizationCharts st
     \<and> toasts (uploadSettled i outcome now st)
         = toasts st @ [ToastError (js ''Failed to upload file. Please try again.'')]"
proof -
  from assms(2) obtain err where "uploadFile outcome = Inl err"
    by (auto simp: uploadFile_def)
  with assms(1) show ?thesis
    by (simp add: uploadSettled_def)
qed

theorem upload_failure_witness:
  "0 < length (uploads (run example_lower example_parse
         [FileChosen (Some (js ''sales.csv''))] (initial :: jstring state)))
   \<and> \<not> response_ok 500
   \<and> fileData (uploadSettled 0 (Response 500 None) (js ''t0'')
         (run example_lower example_parse [FileChosen (Some (js ''sales.csv''))]
            (initial :: jstring state))) = None
   \<and> messages (uploadSettled 0 FetchRejected (js ''t0'')
         (run example_lower example_parse [FileChosen (Some (js ''sales.csv''))]
            (initial :: jstring state))) = []
   \<and> toasts (uploadSettled 0 (Response 500 None) (js ''t0'')
         (run example_lower example_parse [FileChosen (Some (js ''sales.csv''))]
            (initial :: jstring state)))
       = [ToastError (js ''Failed to upload file. Please try again.'')]"
proof -
  have a: "0 < length (uploads (run example_lower example_parse
         [FileChosen (Some (js ''sales.csv''))] (initial :: jstring state)))"
    unfolding sales_uploading by simp
  have b: "\<not> response_ok 500"
    by (simp add: response_ok_def)
  have c: "fileData (run example_lower example_parse
         [FileChosen (Some (js ''sales.csv''))] (initial :: jstring state)) = None"
    "messages (run example_lower example_parse
         [FileChosen (Some (js ''sales.csv''))] (initial :: jstring state)) = []"
    "toasts (run example_lower example_parse
         [FileChosen (Some (js ''sales.csv''))] (initial :: jstring state)) = []"
    unfolding sales_uploading by (simp_all add: initial_def)
  show ?thesis
    using a b
      upload_failure [OF a, of "Response 500 None" "js ''t0''"]
      upload_failure [OF a, of FetchRejected "js ''t0''"]
    unfolding c
    by simp
qed

section \<open>Validation\<close>

lemma sales_active:
  "run example_lower example_parse
     [FileChosen (Some (js ''sales.csv'')),
      UploadSettled 0 (Response 200 (Some example_sales)) (js ''t0''),
      Input (js ''  '')] initial
   = initial\<lparr>activeFileId := Some (js ''f1''), fileData := Some example_sales,
        messages := [\<lparr>role = Assistant, content = welcomeMessage example_sales,
                       formattedContent = Some (welcomeMessage example_sales),
                       timestamp = js ''t0'', charts = None, isTyping = None\<rparr>],
        newMessage := js ''  '', isUploading := True, uploadProgress := 100,
        toasts := [ToastSuccess (js ''File uploaded successfully!'')],
        network := [UploadRequest (js ''sales.csv'')], hideTimers := 1\<rparr>"
proof -
  have "file_id example_sales = js ''f1''"
    by (simp add: example_sales_def)
  moreover have "js ''f1'' \<noteq> []"
    by (simp add: js_def)
  ultimately show ?thesis
    using sales_uploading
    by (simp add: uploadSettled_def uploadFile_def response_ok_def falsy_def initial_def)
qed

text \<open>
  C5, as stated, fails for the blank message: after a successful upload of \<open>sales.csv\<close>
  the user types two spaces and presses Enter. The send is rejected and the state is
  exactly as before, so no toast has been added (the only toast is the one of the
  upload) and the only network call is the upload.
\<close>

theorem blank_message_counterexample:
  "trim (js ''  '') = []
   \<and> step example_lower example_parse (Submit (js ''t1''))
       (run example_lower example_parse
          [FileChosen (Some (js ''sales.csv'')),
           UploadSettled 0 (Response 200 (Some example_sales)) (js ''t0''),
           Input (js ''  '')] initial)
     = run example_lower example_parse
          [FileChosen (Some (js ''sales.csv'')),
           UploadSettled 0 (Response 200 (Some example_sales)) (js ''t0''),
           Input (js ''  '')] initial
   \<and> toasts (step example_lower example_parse (Submit (js ''t1''))
       (run example_lower example_parse
          [FileChosen (Some (js ''sales.csv'')),
           UploadSettled 0 (Response 200 (Some example_sales)) (js ''t0''),
           Input (js ''  '')] initial))
     = [ToastSuccess (js ''File uploaded successfully!'')]"
proof -
  have a: "trim (js ''  '') = []"
    by (simp add: trim_def js_def is_space_def)
  show ?thesis
    unfolding sales_active
    using a by (simp add: sendMessage_def messageContent_def falsy_def initial_def)
qed

text \<open>
  C5, amended. A file whose lower-cased name does not end in \<open>.xlsx\<close>, \<open>.xls\<close> or
  \<open>.csv\<close> is rejected before any network call, with an error toast and no other change
  of the state. A message that is empty or white space only is rejected before any
  network call, silently: the state, and so the list of toasts, is unchanged.
\<close>

theorem validation_rejects:
  "(\<not> endsWith (lc name) (js ''.xlsx'') \<and> \<not> endsWith (lc name) (js ''.xls'')
      \<and> \<not> endsWith (lc name) (js ''.csv'') \<longrightarrow>
      handleFileUpload lc (Some name) st
        = st\<lparr>toasts := toasts st
              @ [ToastError (js ''Please upload an Excel file (.xlsx, .xls) or CSV file (.csv)'')]\<rparr>
      \<and> network (handleFileUpload lc (Some name) st) = network st)
   \<and> (trim (messageContent messageText st) = [] \<longrightarrow>
      sendMessage messageText now st = st)"
  by (simp add: handleFileUpload_def sendMessage_def)

theorem validation_rejects_witness:
  "\<not> endsWith (example_lower (js ''Notes.TXT'')) (js ''.xlsx'')
   \<and> \<not> endsWith (example_lower (js ''Notes.TXT'')) (js ''.xls'')
   \<and> \<not> endsWith (example_lower (js ''Notes.TXT'')) (js ''.csv'')
   \<and> trim (messageContent None ((initial :: jstring state)\<lparr>newMessage := js ''  ''\<rparr>)) = []
   \<and> handleFileUpload example_lower (Some (js ''Notes.TXT''))
         ((initial :: jstring state)\<lparr>newMessage := js ''  ''\<rparr>)
       = initial\<lparr>newMessage := js ''  '',
           toasts := [ToastError (js ''Please upload an Excel file (.xlsx, .xls) or CSV file (.csv)'')]\<rparr>
   \<and> sendMessage None (js ''t1'') ((initial :: jstring state)\<lparr>newMessage := js ''  ''\<rparr>)
       = initial\<lparr>newMessage := js ''  ''\<rparr>"
proof -
  have a: "\<not> endsWith (example_lower (js ''Notes.TXT'')) (js ''.xlsx'')"
    "\<not> endsWith (example_lower (js ''Notes.TXT'')) (js ''.xls'')"
    "\<not> endsWith (example_lower (js ''Notes.TXT'')) (js ''.csv'')"
    by (simp_all add: endsWith_def example_lower_def js_def suffix_to_prefix)
  have b: "trim (messageContent None ((initial :: jstring state)\<lparr>newMessage := js ''  ''\<rparr>)) = []"
    by (simp add: messageContent_def trim_def js_def is_space_def)
  have c: "toasts ((initial :: jstring state)\<lparr>newMessage := js ''  ''\<rparr>) = []"
    by (simp add: initial_def)
  show ?thesis
    using a b
      validation_rejects [of example_lower "js ''Notes.TXT''"
        "(initial :: jstring state)\<lparr>newMessage := js ''  ''\<rparr>" None "js ''t1''"]
    unfolding c
    by simp
qed


section \<open>The typing effect: single steps and whole runs\<close>

lemma take_drop_chunk:
  "i \<le> e \<Longrightarrow> take (e - i) (drop i xs) @ drop e xs = drop i xs"
  by (metis append_take_drop_id drop_drop le_add_diff_inverse2)

lemma cursor_advances:
  assumes "k < length (timers s)"
    and "index (timers s ! k) < length (full_text (timers s ! k))"
  shows "index (timers s ! k) < index (timers (typeNextCharacter k s) ! k)
     \<and> index (timers (typeNextCharacter k s) ! k) \<le> length (full_text (timers s ! k))"
  using assms by (simp add: typeNextCharacter_def Let_def chunkSize_def)

lemma run_typing_eq:
  "i < length (timers st) \<Longrightarrow> index (timers st ! i) \<le> length (full_text (timers st ! i)) \<Longrightarrow>
   run_typing i st =
     st\<lparr>typingText := typingText st @ drop (index (timers st ! i)) (full_text (timers st ! i)),
        isTypingState := False,
        messages := onTypingComplete (placeholder (timers st ! i)) (raw_reply (timers st ! i))
                      (full_text (timers st ! i)) (messages st),
        timers := take i (timers st) @ drop (Suc i) (timers st)\<rparr>"
proof (induction i st rule: run_typing.induct)
  case (1 i st)
  let ?t = "timers st ! i"
  show ?case
  proof (cases "index ?t < length (full_text ?t)")
    case True
    let ?e = "min (index ?t + chunkSize (full_text ?t)) (length (full_text ?t))"
    have st': "typeNextCharacter i st =
        st\<lparr>typingText := typingText st @ take (?e - index ?t) (drop (index ?t) (full_text ?t)),
           timers := (timers st)[i := ?t\<lparr>index := ?e\<rparr>]\<rparr>"
      using True "1.prems"(1) by (simp add: typeNextCharacter_def Let_def)
    have "index ?t \<le> ?e"
      using True by simp
    then have "take (?e - index ?t) (drop (index ?t) (full_text ?t)) @ drop ?e (full_text ?t)
        = drop (index ?t) (full_text ?t)"
      by (rule take_drop_chunk)
    then show ?thesis
      using True "1.prems" "1.IH" st'
      by (subst run_typing.simps) (simp add: take_update_cancel drop_update_cancel)
  next
    case False
    then show ?thesis
      using "1.prems"
      by (subst run_typing.simps) (simp add: typeNextCharacter_def Let_def)
  qed
qed

lemma chatSettled_eq:
  "chatSettled jp outcome now st =
     (if chats st = 0 then st
      else (case sendChatMessage outcome of
          Inl err \<Rightarrow> (sendFailed now (st\<lparr>chats := chats st - 1\<rparr>))\<lparr>isSending := False\<rparr>
        | Inr data \<Rightarrow>
            st\<lparr>chats := chats st - 1,
               console := console st
                 @ map (\<lambda>err. js ''Failed to parse chart data:'')
                     (logged_errors jp (analysis data)),
               visualizationCharts :=
                 (if length (extracted_charts jp (analysis data)) > 0
                  then extracted_charts jp (analysis data) else visualizationCharts st),
               messages := messages st
                 @ [\<lparr>role = Assistant, content = [], formattedContent = Some [],
                      timestamp = now,
                      charts = (if length (extracted_charts jp (analysis data)) > 0
                                then Some (extracted_charts jp (analysis data)) else None),
                      isTyping = Some True\<rparr>],
               isTypingState := True, typingText := [],
               fullResponse := formatAIResponse (analysis data),
               timers := timers st
                 @ [\<lparr>full_text = formatAIResponse (analysis data), index = 0,
                      placeholder = now, raw_reply = analysis data\<rparr>],
               isSending := False\<rparr>))"
  by (simp add: chatSettled_def parse_eq simulateTyping_def Let_def split: sum.splits)

lemma run_simulateTyping:
  "run_typing (length (timers s)) (simulateTyping txt ts raw s)
   = s\<lparr>typingText := txt, isTypingState := False, fullResponse := txt,
        messages := onTypingComplete ts raw txt (messages s)\<rparr>"
  by (subst run_typing_eq) (simp_all add: simulateTyping_def nth_append)

lemma format_hello: "formatAIResponse (js ''Hello there.'') = js ''Hello there.''"
proof -
  have 1: "replaceAll chartDataRegex [] (js ''Hello there.'') = js ''Hello there.''"
    by (simp add: chartDataRegex_def chart_open_def chart_close_def js_def)
  have 2: "replaceAll emptyBlockRegex [] (js ''Hello there.'') = js ''Hello there.''"
    by (simp add: emptyBlockRegex_def fence_def js_def)
  have 3: "replaceAll lineBreaksRegex [10, 10] (js ''Hello there.'') = js ''Hello there.''"
    by (simp add: lineBreaksRegex_def js_def)
  have 4: "replaceAll ruleRegex (js ''---\<newline>'') (js ''Hello there.'') = js ''Hello there.''"
    by (simp add: ruleRegex_def js_def)
  have 5: "trim (js ''Hello there.'') = js ''Hello there.''"
    by (simp add: trim_def js_def is_space_def)
  show ?thesis
    unfolding formatAIResponse_def Let_def 1 2 3 4 5 ..
qed

section \<open>One reveal at a time\<close>

lemma mset_remove_nth:
  "i < length xs \<Longrightarrow> mset (take i xs @ drop (Suc i) xs) = mset xs - {#xs ! i#}"
proof -
  assume "i < length xs"
  then have "xs = take i xs @ xs ! i # drop (Suc i) xs"
    by (rule id_take_nth_drop)
  then have "mset xs = mset (take i xs @ drop (Suc i) xs) + {#xs ! i#}"
    by (metis add_mset_add_single mset.simps(2) mset_append union_mset_add_mset_right)
  then show ?thesis by simp
qed

lemma typing_after_complete:
  "filter (\<lambda>m. isTyping m = Some True) (onTypingComplete ts raw fmt msgs)
   = filter (\<lambda>m. timestamp m \<noteq> ts) (filter (\<lambda>m. isTyping m = Some True) msgs)"
  by (induction msgs) (auto simp: onTypingComplete_def)

lemma covered_after_removal:
  assumes "X \<subseteq># Y"
  shows "filter_mset (\<lambda>x. x \<noteq> ts) X \<subseteq># Y - {#ts#}"
proof (rule mset_subset_eqI)
  fix a
  show "count (filter_mset (\<lambda>x. x \<noteq> ts) X) a \<le> count (Y - {#ts#}) a"
    using mset_subset_eq_count [OF assms, of a] by (cases "a = ts") auto
qed

lemma typing_covered_tick:
  assumes "typing_covered st"
  shows "typing_covered (typeNextCharacter i st)"
proof (cases "i < length (timers st)")
  case False
  with assms show ?thesis by (simp add: typeNextCharacter_def)
next
  case True
  let ?t = "timers st ! i"
  show ?thesis
  proof (cases "index ?t < length (full_text ?t)")
    case True
    have "map placeholder ((timers st)[i := ?t\<lparr>index := min (index ?t + chunkSize (full_text ?t)) (length (full_text ?t))\<rparr>])
        = map placeholder (timers st)"
      using \<open>i < length (timers st)\<close> by (simp add: map_update list_update_same_conv)
    then have "image_mset placeholder (mset ((timers st)[i := ?t\<lparr>index := min (index ?t + chunkSize (full_text ?t)) (length (full_text ?t))\<rparr>]))
        = image_mset placeholder (mset (timers st))"
      by (metis mset_map)
    with assms True \<open>i < length (timers st)\<close> show ?thesis
      by (simp add: typing_covered_def typing_messages_def typeNextCharacter_def Let_def)
  next
    case False
    have t: "?t \<in># mset (timers st)"
      using \<open>i < length (timers st)\<close> by simp
    have "image_mset placeholder (mset (take i (timers st) @ drop (Suc i) (timers st)))
        = image_mset placeholder (mset (timers st)) - {#placeholder ?t#}"
      unfolding mset_remove_nth [OF \<open>i < length (timers st)\<close>]
      using t by (simp add: image_mset_Diff)
    moreover have "image_mset timestamp (mset (filter (\<lambda>m. timestamp m \<noteq> placeholder ?t)
          (typing_messages st)))
        = filter_mset (\<lambda>x. x \<noteq> placeholder ?t) (image_mset timestamp (mset (typing_messages st)))"
      by (simp add: filter_mset_image_mset)
    ultimately show ?thesis
      using assms False \<open>i < length (timers st)\<close>
      by (simp add: typing_covered_def typing_messages_def typeNextCharacter_def Let_def
            typing_after_complete covered_after_removal)
  qed
qed


lemma typing_covered_chatSettled:
  assumes "typing_covered st"
  shows "typing_covered (chatSettled jp outcome now st)"
  using assms
  by (simp add: chatSettled_eq sendFailed_def typing_covered_def typing_messages_def
        split: sum.splits)

lemma typing_covered_step:
  assumes "typing_covered st"
  shows "typing_covered (step lc jp e st)"
proof (cases e)
  case (FileChosen chosen)
  with assms show ?thesis
    by (cases chosen)
       (auto simp: typing_covered_def typing_messages_def handleFileUpload_def Let_def)
next
  case (UploadSettled i outcome now)
  with assms show ?thesis
    by (auto simp: typing_covered_def typing_messages_def uploadSettled_def Let_def
             split: sum.splits)
next
  case (ProgressTick i)
  with assms show ?thesis
    by (auto simp: typing_covered_def typing_messages_def progressTick_def)
next
  case HideUpload
  with assms show ?thesis
    by (auto simp: typing_covered_def typing_messages_def hideUpload_def)
next
  case (Input t)
  with assms show ?thesis
    by (auto simp: typing_covered_def typing_messages_def)
next
  case (Submit now)
  with assms show ?thesis
    by (auto simp: typing_covered_def typing_messages_def sendMessage_def)
next
  case (InsightClick insight now)
  with assms show ?thesis
    by (auto simp: typing_covered_def typing_messages_def handleInsightClick_def sendMessage_def)
next
  case (ChatSettled outcome now)
  with assms show ?thesis
    by (simp add: typing_covered_chatSettled)
next
  case (TypingTick i)
  with assms show ?thesis
    by (simp add: typing_covered_tick)
qed

lemma timers_step:
  "length (timers (step lc jp e st))
     \<le> (case e of ChatSettled outcome now \<Rightarrow> Suc (length (timers st)) | _ \<Rightarrow> length (timers st))"
proof (cases e)
  case (FileChosen chosen)
  then show ?thesis
    by (cases chosen) (auto simp: handleFileUpload_def Let_def)
next
  case (UploadSettled i outcome now)
  then show ?thesis
    by (auto simp: uploadSettled_def Let_def split: sum.splits)
next
  case (ChatSettled outcome now)
  then show ?thesis
    by (simp add: chatSettled_eq sendFailed_def split: sum.splits)
qed (auto simp: progressTick_def hideUpload_def sendMessage_def handleInsightClick_def
       typeNextCharacter_def Let_def)

lemma replies_apart_run:
  "typing_covered st \<Longrightarrow> length (timers st) \<le> 1 \<Longrightarrow> replies_apart lc jp es st \<Longrightarrow>
   typing_covered (run lc jp es st) \<and> length (timers (run lc jp es st)) \<le> 1"
proof (induction es arbitrary: st)
  case Nil
  then show ?case by simp
next
  case (Cons e es)
  have "length (timers (step lc jp e st)) \<le> 1"
    using timers_step [of lc jp e st] Cons.prems(2,3) by (cases e) auto
  with Cons show ?case
    by (simp add: typing_covered_step)
qed

lemma typing_covered_count:
  "typing_covered st \<Longrightarrow> length (typing_messages st) \<le> length (timers st)"
  using size_mset_mono [of "image_mset timestamp (mset (typing_messages st))"
      "image_mset placeholder (mset (timers st))"]
  by (simp add: typing_covered_def)

text \<open>
  C1, amended. In a session in which every response to a chat call arrives while no
  typing timer is pending, at most one message has \<open>isTyping = true\<close> at any point.
  (\<open>isSending\<close> gates the form only until the response has arrived, not until the
  reveal has ended, so a following send can have its response arrive during the reveal.)
  And whatever the state, the arrival of a response, which starts a new reveal, leaves
  every message that is already in the store as it is: the new placeholder is appended.
\<close>

theorem one_reveal_at_a_time:
  "(replies_apart lc jp es initial \<longrightarrow>
      length (typing_messages (run lc jp es initial)) \<le> 1)
   \<and> take (length (messages st)) (messages (chatSettled jp outcome now st)) = messages st"
proof
  show "replies_apart lc jp es initial \<longrightarrow>
      length (typing_messages (run lc jp es initial)) \<le> 1"
  proof
    assume ra: "replies_apart lc jp es initial"
    have "typing_covered (run lc jp es initial) \<and> length (timers (run lc jp es initial)) \<le> 1"
      by (rule replies_apart_run [OF _ _ ra])
         (simp_all add: typing_covered_def typing_messages_def initial_def)
    then show "length (typing_messages (run lc jp es initial)) \<le> 1"
      using typing_covered_count [of "run lc jp es initial"] by simp
  qed
next
  show "take (length (messages st)) (messages (chatSettled jp outcome now st)) = messages st"
    by (simp add: chatSettled_eq sendFailed_def split: sum.splits)
qed

lemma sales_ready:
  "run example_lower example_parse
     [FileChosen (Some (js ''sales.csv'')),
      UploadSettled 0 (Response 200 (Some example_sales)) (js ''t0'')] initial
   = initial\<lparr>activeFileId := Some (js ''f1''), fileData := Some example_sales,
        messages := [\<lparr>role = Assistant, content = welcomeMessage example_sales,
                       formattedContent = Some (welcomeMessage example_sales),
                       timestamp = js ''t0'', charts = None, isTyping = None\<rparr>],
        isUploading := True, uploadProgress := 100,
        toasts := [ToastSuccess (js ''File uploaded successfully!'')],
        network := [UploadRequest (js ''sales.csv'')], hideTimers := 1\<rparr>"
proof -
  have "file_id example_sales = js ''f1''"
    by (simp add: example_sales_def)
  then show ?thesis
    using sales_uploading
    by (simp add: uploadSettled_def uploadFile_def response_ok_def initial_def)
qed

lemma hello_no_charts:
  "extracted_charts example_parse (js ''Hello there.'') = []"
  "logged_errors example_parse (js ''Hello there.'') = []"
proof -
  have "matchAll chartDataRegex (js ''Hello there.'') = []"
    by (simp add: chartDataRegex_def chart_open_def chart_close_def js_def)
  then show "extracted_charts example_parse (js ''Hello there.'') = []"
    "logged_errors example_parse (js ''Hello there.'') = []"
    by (simp_all add: extracted_charts_def logged_errors_def)
qed

lemma first_reply:
  "run example_lower example_parse
     [Input (js ''a''), Submit (js ''t1''), ChatSettled example_reply (js ''t2''),
      Input (js ''b'')]
     (initial\<lparr>activeFileId := Some (js ''f1''), fileData := Some example_sales,
        messages := [\<lparr>role = Assistant, content = welcomeMessage example_sales,
                       formattedContent = Some (welcomeMessage example_sales),
                       timestamp = js ''t0'', charts = None, isTyping = None\<rparr>],
        isUploading := True, uploadProgress := 100,
        toasts := [ToastSuccess (js ''File uploaded successfully!'')],
        network := [UploadRequest (js ''sales.csv'')], hideTimers := 1\<rparr>)
   = initial\<lparr>activeFileId := Some (js ''f1''), fileData := Some example_sales,
        messages := [\<lparr>role = Assistant, content = welcomeMessage example_sales,
                       formattedContent = Some (welcomeMessage example_sales),
                       timestamp = js ''t0'', charts = None, isTyping = None\<rparr>,
                     \<lparr>role = User, content = js ''a'', formattedContent = None,
                       timestamp = js ''t1'', charts = None, isTyping = None\<rparr>,
                     \<lparr>role = Assistant, content = [], formattedContent = Some [],
                       timestamp = js ''t2'', charts = None, isTyping = Some True\<rparr>],
        newMessage := js ''b'',
        isUploading := True, uploadProgress := 100,
        isTypingState := True, fullResponse := js ''Hello there.'',
        toasts := [ToastSuccess (js ''File uploaded successfully!'')],
        network := [UploadRequest (js ''sales.csv''), ChatRequest (js ''f1'') (js ''a'')],
        hideTimers := 1,
        timers := [\<lparr>full_text = js ''Hello there.'', index = 0, placeholder = js ''t2'',
                     raw_reply = js ''Hello there.''\<rparr>]\<rparr>"
proof -
  have a: "js ''f1'' \<noteq> []" "trim (js ''a'') \<noteq> []" "js ''a'' \<noteq> []"
    by (simp_all add: js_def trim_def is_space_def)
  show ?thesis
    using a
    by (simp add: falsy_def initial_def sendMessage_def messageContent_def chatSettled_eq
          example_reply_def sendChatMessage_def response_ok_def hello_no_charts format_hello)
qed


text \<open>
  C1, as stated, fails. After the upload of \<open>sales.csv\<close> the user sends \<open>a\<close> with the
  form; the response arrives and its reveal starts; \<open>isSending\<close> is false again, so the
  form accepts \<open>b\<close>; the response to \<open>b\<close> arrives before any typing timer of the first
  reveal has fired. Both placeholders then have \<open>isTyping = true\<close>.
\<close>

theorem overlapping_reveals_counterexample:
  "isSending (run example_lower example_parse
       [FileChosen (Some (js ''sales.csv'')),
        UploadSettled 0 (Response 200 (Some example_sales)) (js ''t0''),
        Input (js ''a''), Submit (js ''t1''), ChatSettled example_reply (js ''t2''),
        Input (js ''b'')] initial) = False
   \<and> map isTyping (messages (run example_lower example_parse
       [FileChosen (Some (js ''sales.csv'')),
        UploadSettled 0 (Response 200 (Some example_sales)) (js ''t0''),
        Input (js ''a''), Submit (js ''t1''), ChatSettled example_reply (js ''t2''),
        Input (js ''b''), Submit (js ''t3''), ChatSettled example_reply (js ''t4'')] initial))
     = [None, None, Some True, None, Some True]
   \<and> length (typing_messages (run example_lower example_parse
       [FileChosen (Some (js ''sales.csv'')),
        UploadSettled 0 (Response 200 (Some example_sales)) (js ''t0''),
        Input (js ''a''), Submit (js ''t1''), ChatSettled example_reply (js ''t2''),
        Input (js ''b''), Submit (js ''t3''), ChatSettled example_reply (js ''t4'')] initial))
     = 2"
proof -
  have a: "js ''f1'' \<noteq> []" "trim (js ''b'') \<noteq> []" "js ''b'' \<noteq> []"
    by (simp_all add: js_def trim_def is_space_def)
  have six: "run example_lower example_parse
       [FileChosen (Some (js ''sales.csv'')),
        UploadSettled 0 (Response 200 (Some example_sales)) (js ''t0''),
        Input (js ''a''), Submit (js ''t1''), ChatSettled example_reply (js ''t2''),
        Input (js ''b'')] initial
     = run example_lower example_parse
         [Input (js ''a''), Submit (js ''t1''), ChatSettled example_reply (js ''t2''),
          Input (js ''b'')]
         (run example_lower example_parse
            [FileChosen (Some (js ''sales.csv'')),
             UploadSettled 0 (Response 200 (Some example_sales)) (js ''t0'')] initial)"
    by simp
  have eight: "run example_lower example_parse
       [FileChosen (Some (js ''sales.csv'')),
        UploadSettled 0 (Response 200 (Some example_sales)) (js ''t0''),
        Input (js ''a''), Submit (js ''t1''), ChatSettled example_reply (js ''t2''),
        Input (js ''b''), Submit (js ''t3''), ChatSettled example_reply (js ''t4'')] initial
     = run example_lower example_parse
         [Submit (js ''t3''), ChatSettled example_reply (js ''t4'')]
         (run example_lower example_parse
            [FileChosen (Some (js ''sales.csv'')),
             UploadSettled 0 (Response 200 (Some example_sales)) (js ''t0''),
             Input (js ''a''), Submit (js ''t1''), ChatSettled example_reply (js ''t2''),
             Input (js ''b'')] initial)"
    by simp
  show ?thesis
    unfolding eight unfolding six sales_ready first_reply
    using a
    by (simp add: falsy_def initial_def sendMessage_def messageContent_def chatSettled_eq
          example_reply_def sendChatMessage_def response_ok_def hello_no_charts format_hello
          typing_messages_def)
qed

theorem one_reveal_at_a_time_witness:
  "replies_apart example_lower example_parse
       [FileChosen (Some (js ''sales.csv'')),
        UploadSettled 0 (Response 200 (Some example_sales)) (js ''t0''),
        Input (js ''a''), Submit (js ''t1''), ChatSettled example_reply (js ''t2''),
        Input (js ''b'')] initial
   \<and> length (typing_messages (run example_lower example_parse
       [FileChosen (Some (js ''sales.csv'')),
        UploadSettled 0 (Response 200 (Some example_sales)) (js ''t0''),
        Input (js ''a''), Submit (js ''t1''), ChatSettled example_reply (js ''t2''),
        Input (js ''b'')] initial)) \<le> 1
   \<and> take 1 (messages (chatSettled example_parse example_reply (js ''t2'')
         ((initial :: jstring state)\<lparr>chats := 1, messages :=
            [\<lparr>role = User, content = js ''a'', formattedContent = None,
               timestamp = js ''t1'', charts = None, isTyping = None\<rparr>]\<rparr>)))
     = [\<lparr>role = User, content = js ''a'', formattedContent = None,
               timestamp = js ''t1'', charts = None, isTyping = None\<rparr>]"
proof -
  have a: "js ''f1'' \<noteq> []" "trim (js ''a'') \<noteq> []" "js ''a'' \<noteq> []"
    by (simp_all add: js_def trim_def is_space_def)
  have two: "step example_lower example_parse
       (UploadSettled 0 (Response 200 (Some example_sales)) (js ''t0''))
       (step example_lower example_parse (FileChosen (Some (js ''sales.csv''))) initial)
     = run example_lower example_parse
        [FileChosen (Some (js ''sales.csv'')),
         UploadSettled 0 (Response 200 (Some example_sales)) (js ''t0'')] initial"
    by simp
  have r: "replies_apart example_lower example_parse
       [FileChosen (Some (js ''sales.csv'')),
        UploadSettled 0 (Response 200 (Some example_sales)) (js ''t0''),
        Input (js ''a''), Submit (js ''t1''), ChatSettled example_reply (js ''t2''),
        Input (js ''b'')] initial"
    unfolding replies_apart.simps two sales_ready
    using a
    by (simp add: falsy_def initial_def sendMessage_def messageContent_def)
  show ?thesis
    using r one_reveal_at_a_time [of example_lower example_parse
       "[FileChosen (Some (js ''sales.csv'')),
        UploadSettled 0 (Response 200 (Some example_sales)) (js ''t0''),
        Input (js ''a''), Submit (js ''t1''), ChatSettled example_reply (js ''t2''),
        Input (js ''b'')]"
       "(initial :: jstring state)\<lparr>chats := 1, messages :=
            [\<lparr>role = User, content = js ''a'', formattedContent = None,
               timestamp = js ''t1'', charts = None, isTyping = None\<rparr>]\<rparr>"
       example_reply "js ''t2''"]
    by simp
qed

section \<open>The typing effect reaches its end\<close>

lemma chunkSize_pos: "0 < chunkSize txt"
  by (simp add: chunkSize_def)

lemma before_last_tick:
  assumes "0 < c" and "Suc n \<le> (L + c - 1) div c"
  shows "n * c < (L :: nat)"
proof -
  from assms have "Suc n * c \<le> L + c - 1"
    by (simp add: less_eq_div_iff_mult_less_eq)
  with assms(1) show ?thesis
    by (cases L) simp_all
qed

lemma at_last_tick:
  assumes "0 < c"
  shows "(L :: nat) \<le> (L + c - 1) div c * c"
proof -
  have "L + c - 1 < c + (L + c - 1) div c * c"
    using assms by (rule dividend_less_div_times)
  then show ?thesis by simp
qed

lemma reveal_ticks:
  assumes "timers s = ts0 @ [\<lparr>full_text = txt, index = 0, placeholder = p, raw_reply = r\<rparr>]"
  shows "n \<le> (length txt + chunkSize txt - 1) div chunkSize txt \<Longrightarrow>
     (typeNextCharacter (length ts0) ^^ n) s
     = s\<lparr>typingText := typingText s @ take (n * chunkSize txt) txt,
         timers := ts0 @ [\<lparr>full_text = txt, index = min (n * chunkSize txt) (length txt),
                           placeholder = p, raw_reply = r\<rparr>]\<rparr>"
proof (induction n)
  case 0
  show ?case
    using assms by simp
next
  case (Suc n)
  have lt: "n * chunkSize txt < length txt"
    using Suc.prems chunkSize_pos by (rule before_last_tick [rotated])
  have chunk: "take (n * chunkSize txt) txt
        @ take (min (n * chunkSize txt + chunkSize txt) (length txt) - n * chunkSize txt)
            (drop (n * chunkSize txt) txt)
      = take (Suc n * chunkSize txt) txt"
  proof -
    have "take (min (n * chunkSize txt + chunkSize txt) (length txt) - n * chunkSize txt)
            (drop (n * chunkSize txt) txt)
        = take (chunkSize txt) (drop (n * chunkSize txt) txt)"
      by (simp add: min_def)
    then show ?thesis
      by (simp add: take_add [symmetric] add.commute)
  qed
  have "(typeNextCharacter (length ts0) ^^ Suc n) s
      = typeNextCharacter (length ts0) ((typeNextCharacter (length ts0) ^^ n) s)"
    by simp
  also have "\<dots> = typeNextCharacter (length ts0)
      (s\<lparr>typingText := typingText s @ take (n * chunkSize txt) txt,
         timers := ts0 @ [\<lparr>full_text = txt, index = min (n * chunkSize txt) (length txt),
                           placeholder = p, raw_reply = r\<rparr>]\<rparr>)"
    using Suc by simp
  also have "\<dots> = s\<lparr>typingText := typingText s @ take (Suc n * chunkSize txt) txt,
         timers := ts0 @ [\<lparr>full_text = txt, index = min (Suc n * chunkSize txt) (length txt),
                           placeholder = p, raw_reply = r\<rparr>]\<rparr>"
    using lt chunk by (simp add: typeNextCharacter_def Let_def min_absorb1 add.commute)
  finally show ?case .
qed

lemma reveal_last_tick:
  assumes "timers s = ts0 @ [\<lparr>full_text = txt, index = 0, placeholder = p, raw_reply = r\<rparr>]"
  shows "(typeNextCharacter (length ts0)
            ^^ Suc ((length txt + chunkSize txt - 1) div chunkSize txt)) s
     = s\<lparr>typingText := typingText s @ txt, isTypingState := False,
         messages := onTypingComplete p r txt (messages s), timers := ts0\<rparr>"
proof -
  let ?N = "(length txt + chunkSize txt - 1) div chunkSize txt"
  have "length txt \<le> ?N * chunkSize txt"
    using chunkSize_pos by (rule at_last_tick)
  then show ?thesis
    using reveal_ticks [OF assms, of ?N]
    by (simp add: typeNextCharacter_def Let_def)
qed

lemma run_typing_last_tick:
  assumes "timers s = ts0 @ [\<lparr>full_text = txt, index = 0, placeholder = p, raw_reply = r\<rparr>]"
  shows "run_typing (length ts0) s
     = (typeNextCharacter (length ts0)
          ^^ Suc ((length txt + chunkSize txt - 1) div chunkSize txt)) s"
  unfolding reveal_last_tick [OF assms]
  using assms by (subst run_typing_eq) simp_all

lemma sales_asked:
  "run example_lower example_parse
     [FileChosen (Some (js ''sales.csv'')),
      UploadSettled 0 (Response 200 (Some example_sales)) (js ''t0''),
      Input (js ''a''), Submit (js ''t1'')] initial
   = initial\<lparr>activeFileId := Some (js ''f1''), fileData := Some example_sales,
        messages := [\<lparr>role = Assistant, content = welcomeMessage example_sales,
                       formattedContent = Some (welcomeMessage example_sales),
                       timestamp = js ''t0'', charts = None, isTyping = None\<rparr>,
                     \<lparr>role = User, content = js ''a'', formattedContent = None,
                       timestamp = js ''t1'', charts = None, isTyping = None\<rparr>],
        isUploading := True, isSending := True, uploadProgress := 100,
        toasts := [ToastSuccess (js ''File uploaded successfully!'')],
        network := [UploadRequest (js ''sales.csv''), ChatRequest (js ''f1'') (js ''a'')],
        chats := 1, hideTimers := 1\<rparr>"
proof -
  have a: "js ''f1'' \<noteq> []" "trim (js ''a'') \<noteq> []" "js ''a'' \<noteq> []"
    by (simp_all add: js_def trim_def is_space_def)
  have "run example_lower example_parse
     [FileChosen (Some (js ''sales.csv'')),
      UploadSettled 0 (Response 200 (Some example_sales)) (js ''t0''),
      Input (js ''a''), Submit (js ''t1'')] initial
    = run example_lower example_parse [Input (js ''a''), Submit (js ''t1'')]
       (run example_lower example_parse
         [FileChosen (Some (js ''sales.csv'')),
          UploadSettled 0 (Response 200 (Some example_sales)) (js ''t0'')] initial)"
    by simp
  then show ?thesis
    unfolding sales_ready using a
    by (simp add: falsy_def initial_def sendMessage_def messageContent_def)
qed

lemma hello_chunks:
  "chunkSize (js ''Hello there.'') = 3" "length (js ''Hello there.'') = 12"
  "take 6 (js ''Hello there.'') = js ''Hello ''"
  "chunkSize (js '' ok '') = 3" "length (js '' ok '') = 4"
  "take 3 (js '' ok '') = js '' ok''"
  by (simp_all add: chunkSize_def js_def)

text \<open>
  C2. When a chat call that is awaiting its response succeeds, the placeholder is
  appended to the store with the timestamp \<open>now\<close>, empty content and \<open>isTyping = true\<close>,
  and a typing timer is started with its cursor at 0 on the formatted reply. Let \<open>L\<close> be
  the length of that text, \<open>c\<close> its chunk size and \<open>N\<close> the quotient \<open>L / c\<close> rounded up.
  After each of the first \<open>N\<close> firings of the timer the timer is still pending with its
  cursor at \<open>min (n * c) L\<close>, the typed text is the first \<open>n * c\<close> characters, and the
  store is as it was: the placeholder is still being typed. The cursor grows with each
  of these firings and is \<open>L\<close> after \<open>N\<close> of them. The chain of callbacks, \<open>run_typing\<close>,
  ends: it is exactly \<open>N + 1\<close> firings, the last of which finds the cursor at \<open>L\<close> and
  runs the completion callback. After it the store has as many messages as before, the
  placeholder, still the last message and with the same timestamp and charts, has the
  raw reply as \<open>content\<close>, the whole formatted text as \<open>formattedContent\<close> and
  \<open>isTyping = false\<close>, every earlier message with another timestamp is as it was, the
  typed text is the whole text, and the timer is gone.

  The same holds for \<open>simulateTyping\<close> called with any text \<open>t\<close>, in any state. And in
  any state, a firing of any pending typing timer whose cursor is before the end of
  its text moves the cursor forward, and not beyond the end.
\<close>

theorem typing_finishes:
  assumes "chats st > 0" and "sendChatMessage outcome = Inr data"
  shows
   "(let shown = formatAIResponse (analysis data);
         k = length (timers st);
         s0 = chatSettled jp outcome now st;
         c = chunkSize shown;
         N = (length shown + c - 1) div c;
         chs = extracted_charts jp (analysis data);
         p = \<lparr>role = Assistant, content = [], formattedContent = Some [], timestamp = now,
              charts = (if length chs > 0 then Some chs else None), isTyping = Some True\<rparr>
     in messages s0 = messages st @ [p]
      \<and> timers s0 = timers st @ [\<lparr>full_text = shown, index = 0, placeholder = now,
                                   raw_reply = analysis data\<rparr>]
      \<and> typingText s0 = []
      \<and> (\<forall>n \<le> N.
            timers ((typeNextCharacter k ^^ n) s0)
              = timers st @ [\<lparr>full_text = shown, index = min (n * c) (length shown),
                               placeholder = now, raw_reply = analysis data\<rparr>]
          \<and> typingText ((typeNextCharacter k ^^ n) s0) = take (n * c) shown
          \<and> isTypingState ((typeNextCharacter k ^^ n) s0)
          \<and> messages ((typeNextCharacter k ^^ n) s0) = messages st @ [p])
      \<and> (\<forall>n < N. index (timers ((typeNextCharacter k ^^ n) s0) ! k)
                  < index (timers ((typeNextCharacter k ^^ Suc n) s0) ! k))
      \<and> index (timers ((typeNextCharacter k ^^ N) s0) ! k) = length shown
      \<and> run_typing k s0 = (typeNextCharacter k ^^ Suc N) s0
      \<and> length (messages (run_typing k s0)) = Suc (length (messages st))
      \<and> last (messages (run_typing k s0))
          = p\<lparr>content := analysis data, formattedContent := Some shown, isTyping := Some False\<rparr>
      \<and> (\<forall>j < length (messages st). timestamp (messages st ! j) \<noteq> now \<longrightarrow>
            messages (run_typing k s0) ! j = messages st ! j)
      \<and> typingText (run_typing k s0) = shown
      \<and> \<not> isTypingState (run_typing k s0)
      \<and> timers (run_typing k s0) = timers st)
    \<and> (let k = length (timers s);
            s0 = simulateTyping t ts raw s;
            c = chunkSize t;
            N = (length t + c - 1) div c
        in timers s0 = timers s @ [\<lparr>full_text = t, index = 0, placeholder = ts,
                                      raw_reply = raw\<rparr>]
         \<and> messages s0 = messages s
         \<and> (\<forall>n \<le> N.
               timers ((typeNextCharacter k ^^ n) s0)
                 = timers s @ [\<lparr>full_text = t, index = min (n * c) (length t),
                                 placeholder = ts, raw_reply = raw\<rparr>]
             \<and> typingText ((typeNextCharacter k ^^ n) s0) = take (n * c) t
             \<and> isTypingState ((typeNextCharacter k ^^ n) s0)
             \<and> messages ((typeNextCharacter k ^^ n) s0) = messages s)
         \<and> length t \<le> N * c
         \<and> run_typing k s0 = (typeNextCharacter k ^^ Suc N) s0
         \<and> run_typing k s0
             = s\<lparr>typingText := t, isTypingState := False, fullResponse := t,
                 messages := onTypingComplete ts raw t (messages s)\<rparr>)
    \<and> (q < length (timers u) \<and> index (timers u ! q) < length (full_text (timers u ! q)) \<longrightarrow>
          index (timers u ! q) < index (timers (typeNextCharacter q u) ! q)
          \<and> index (timers (typeNextCharacter q u) ! q) \<le> length (full_text (timers u ! q)))"
proof -
  let ?shown = "formatAIResponse (analysis data)"
  let ?k = "length (timers st)"
  let ?s0 = "chatSettled jp outcome now st"
  let ?c = "chunkSize ?shown"
  let ?N = "(length ?shown + ?c - 1) div ?c"
  let ?chs = "extracted_charts jp (analysis data)"
  let ?p = "\<lparr>role = Assistant, content = [], formattedContent = Some [], timestamp = now,
              charts = (if length ?chs > 0 then Some ?chs else None), isTyping = Some True\<rparr>"
  let ?t = "\<lambda>i. \<lparr>full_text = ?shown, index = i, placeholder = now, raw_reply = analysis data\<rparr>"
  have s1: "?s0 =
            st\<lparr>chats := chats st - 1,
               console := console st
                 @ map (\<lambda>err. js ''Failed to parse chart data:'')
                     (logged_errors jp (analysis data)),
               visualizationCharts := (if length ?chs > 0 then ?chs else visualizationCharts st),
               messages := messages st @ [?p],
               isTypingState := True, typingText := [],
               fullResponse := ?shown,
               timers := timers st @ [?t 0],
               isSending := False\<rparr>"
    using assms by (simp add: chatSettled_eq)
  have m0: "messages ?s0 = messages st @ [?p]" and t0: "timers ?s0 = timers st @ [?t 0]"
    and y0: "typingText ?s0 = []" and i0: "isTypingState ?s0"
    by (simp_all add: s1)
  have ticks: "(typeNextCharacter ?k ^^ n) ?s0
      = ?s0\<lparr>typingText := typingText ?s0 @ take (n * ?c) ?shown,
            timers := timers st @ [?t (min (n * ?c) (length ?shown))]\<rparr>" if "n \<le> ?N" for n
    using t0 that by (rule reveal_ticks)
  have during: "\<forall>n \<le> ?N.
            timers ((typeNextCharacter ?k ^^ n) ?s0)
              = timers st @ [?t (min (n * ?c) (length ?shown))]
          \<and> typingText ((typeNextCharacter ?k ^^ n) ?s0) = take (n * ?c) ?shown
          \<and> isTypingState ((typeNextCharacter ?k ^^ n) ?s0)
          \<and> messages ((typeNextCharacter ?k ^^ n) ?s0) = messages st @ [?p]"
    by (simp add: ticks m0 y0 i0)
  have adv: "\<forall>n < ?N. index (timers ((typeNextCharacter ?k ^^ n) ?s0) ! ?k)
                  < index (timers ((typeNextCharacter ?k ^^ Suc n) ?s0) ! ?k)"
  proof (intro allI impI)
    fix n
    assume n: "n < ?N"
    then have "n * ?c < length ?shown"
      using chunkSize_pos [of ?shown] before_last_tick [of ?c n "length ?shown"] by simp
    moreover have "0 < ?c"
      by (rule chunkSize_pos)
    ultimately have "min (n * ?c) (length ?shown) < min (Suc n * ?c) (length ?shown)"
      by simp
    then show "index (timers ((typeNextCharacter ?k ^^ n) ?s0) ! ?k)
                  < index (timers ((typeNextCharacter ?k ^^ Suc n) ?s0) ! ?k)"
      using n by (simp only: ticks [of n] ticks [of "Suc n"] Suc_leI less_imp_le) simp
  qed
  have full: "length ?shown \<le> ?N * ?c"
    using chunkSize_pos by (rule at_last_tick)
  then have reach: "index (timers ((typeNextCharacter ?k ^^ ?N) ?s0) ! ?k) = length ?shown"
    by (simp add: ticks)
  have run: "run_typing ?k ?s0 = (typeNextCharacter ?k ^^ Suc ?N) ?s0"
    using t0 by (rule run_typing_last_tick)
  have fin: "run_typing ?k ?s0
      = ?s0\<lparr>typingText := typingText ?s0 @ ?shown, isTypingState := False,
            messages := onTypingComplete now (analysis data) ?shown (messages ?s0),
            timers := timers st\<rparr>"
    unfolding run using t0 by (rule reveal_last_tick)
  have after: "length (messages (run_typing ?k ?s0)) = Suc (length (messages st))
      \<and> last (messages (run_typing ?k ?s0))
          = ?p\<lparr>content := analysis data, formattedContent := Some ?shown, isTyping := Some False\<rparr>
      \<and> (\<forall>j < length (messages st). timestamp (messages st ! j) \<noteq> now \<longrightarrow>
            messages (run_typing ?k ?s0) ! j = messages st ! j)
      \<and> typingText (run_typing ?k ?s0) = ?shown
      \<and> \<not> isTypingState (run_typing ?k ?s0)
      \<and> timers (run_typing ?k ?s0) = timers st"
    unfolding fin by (simp add: m0 y0 onTypingComplete_def nth_append)
  let ?g0 = "simulateTyping t ts raw s"
  let ?gk = "length (timers s)"
  let ?gc = "chunkSize t"
  let ?gN = "(length t + ?gc - 1) div ?gc"
  have gt: "timers ?g0 = timers s @ [\<lparr>full_text = t, index = 0, placeholder = ts,
                                      raw_reply = raw\<rparr>]"
    and gm: "messages ?g0 = messages s" and gy: "typingText ?g0 = []"
    and gi: "isTypingState ?g0"
    by (simp_all add: simulateTyping_def)
  have gticks: "(typeNextCharacter ?gk ^^ n) ?g0
      = ?g0\<lparr>typingText := typingText ?g0 @ take (n * ?gc) t,
            timers := timers s @ [\<lparr>full_text = t, index = min (n * ?gc) (length t),
                                 placeholder = ts, raw_reply = raw\<rparr>]\<rparr>" if "n \<le> ?gN" for n
    using gt that by (rule reveal_ticks)
  have gduring: "\<forall>n \<le> ?gN.
               timers ((typeNextCharacter ?gk ^^ n) ?g0)
                 = timers s @ [\<lparr>full_text = t, index = min (n * ?gc) (length t),
                                 placeholder = ts, raw_reply = raw\<rparr>]
             \<and> typingText ((typeNextCharacter ?gk ^^ n) ?g0) = take (n * ?gc) t
             \<and> isTypingState ((typeNextCharacter ?gk ^^ n) ?g0)
             \<and> messages ((typeNextCharacter ?gk ^^ n) ?g0) = messages s"
    by (simp add: gticks gm gy gi)
  have gfull: "length t \<le> ?gN * ?gc"
    using chunkSize_pos by (rule at_last_tick)
  have grun: "run_typing ?gk ?g0 = (typeNextCharacter ?gk ^^ Suc ?gN) ?g0"
    using gt by (rule run_typing_last_tick)
  have gfin: "run_typing ?gk ?g0
             = s\<lparr>typingText := t, isTypingState := False, fullResponse := t,
                 messages := onTypingComplete ts raw t (messages s)\<rparr>"
    by (rule run_simulateTyping)
  have any: "q < length (timers u) \<and> index (timers u ! q) < length (full_text (timers u ! q)) \<longrightarrow>
          index (timers u ! q) < index (timers (typeNextCharacter q u) ! q)
          \<and> index (timers (typeNextCharacter q u) ! q) \<le> length (full_text (timers u ! q))"
    using cursor_advances by blast
  from m0 t0 y0 during adv reach run after gt gm gduring gfull grun gfin any show ?thesis
    unfolding Let_def by (intro conjI) (elim conjE, assumption)+
qed

theorem typing_finishes_witness:
  "chats (run example_lower example_parse
     [FileChosen (Some (js ''sales.csv'')),
      UploadSettled 0 (Response 200 (Some example_sales)) (js ''t0''),
      Input (js ''a''), Submit (js ''t1'')] (initial :: jstring state)) > 0
   \<and> sendChatMessage example_reply
       = Inr \<lparr>chat_file_id = js ''f1'', chat_filename = js ''sales.csv'',
              analysis = js ''Hello there.''\<rparr>
   \<and> map isTyping (messages ((typeNextCharacter 0 ^^ 4)
        (chatSettled example_parse example_reply (js ''t2'')
          (run example_lower example_parse
            [FileChosen (Some (js ''sales.csv'')),
             UploadSettled 0 (Response 200 (Some example_sales)) (js ''t0''),
             Input (js ''a''), Submit (js ''t1'')] initial))))
       = [None, None, Some True]
   \<and> typingText ((typeNextCharacter 0 ^^ 2)
        (chatSettled example_parse example_reply (js ''t2'')
          (run example_lower example_parse
            [FileChosen (Some (js ''sales.csv'')),
             UploadSettled 0 (Response 200 (Some example_sales)) (js ''t0''),
             Input (js ''a''), Submit (js ''t1'')] initial)))
       = js ''Hello ''
   \<and> map index (timers ((typeNextCharacter 0 ^^ 4)
        (chatSettled example_parse example_reply (js ''t2'')
          (run example_lower example_parse
            [FileChosen (Some (js ''sales.csv'')),
             UploadSettled 0 (Response 200 (Some example_sales)) (js ''t0''),
             Input (js ''a''), Submit (js ''t1'')] initial))))
       = [12]
   \<and> index (timers ((typeNextCharacter 0 ^^ 1)
        (chatSettled example_parse example_reply (js ''t2'')
          (run example_lower example_parse
            [FileChosen (Some (js ''sales.csv'')),
             UploadSettled 0 (Response 200 (Some example_sales)) (js ''t0''),
             Input (js ''a''), Submit (js ''t1'')] initial))) ! 0)
       < index (timers ((typeNextCharacter 0 ^^ Suc 1)
        (chatSettled example_parse example_reply (js ''t2'')
          (run example_lower example_parse
            [FileChosen (Some (js ''sales.csv'')),
             UploadSettled 0 (Response 200 (Some example_sales)) (js ''t0''),
             Input (js ''a''), Submit (js ''t1'')] initial))) ! 0)
   \<and> run_typing 0
        (chatSettled example_parse example_reply (js ''t2'')
          (run example_lower example_parse
            [FileChosen (Some (js ''sales.csv'')),
             UploadSettled 0 (Response 200 (Some example_sales)) (js ''t0''),
             Input (js ''a''), Submit (js ''t1'')] initial))
       = (typeNextCharacter 0 ^^ 5)
        (chatSettled example_parse example_reply (js ''t2'')
          (run example_lower example_parse
            [FileChosen (Some (js ''sales.csv'')),
             UploadSettled 0 (Response 200 (Some example_sales)) (js ''t0''),
             Input (js ''a''), Submit (js ''t1'')] initial))
   \<and> last (messages (run_typing 0
        (chatSettled example_parse example_reply (js ''t2'')
          (run example_lower example_parse
            [FileChosen (Some (js ''sales.csv'')),
             UploadSettled 0 (Response 200 (Some example_sales)) (js ''t0''),
             Input (js ''a''), Submit (js ''t1'')] initial))))
       = \<lparr>role = Assistant, content = js ''Hello there.'',
          formattedContent = Some (js ''Hello there.''), timestamp = js ''t2'',
          charts = None, isTyping = Some False\<rparr>
   \<and> length (messages (run_typing 0
        (chatSettled example_parse example_reply (js ''t2'')
          (run example_lower example_parse
            [FileChosen (Some (js ''sales.csv'')),
             UploadSettled 0 (Response 200 (Some example_sales)) (js ''t0''),
             Input (js ''a''), Submit (js ''t1'')] initial))))
       = 3
   \<and> messages (run_typing 0
        (chatSettled example_parse example_reply (js ''t2'')
          (run example_lower example_parse
            [FileChosen (Some (js ''sales.csv'')),
             UploadSettled 0 (Response 200 (Some example_sales)) (js ''t0''),
             Input (js ''a''), Submit (js ''t1'')] initial))) ! 1
       = \<lparr>role = User, content = js ''a'', formattedContent = None,
          timestamp = js ''t1'', charts = None, isTyping = None\<rparr>
   \<and> timers (run_typing 0
        (chatSettled example_parse example_reply (js ''t2'')
          (run example_lower example_parse
            [FileChosen (Some (js ''sales.csv'')),
             UploadSettled 0 (Response 200 (Some example_sales)) (js ''t0''),
             Input (js ''a''), Submit (js ''t1'')] initial)))
       = []
   \<and> typingText ((typeNextCharacter 0 ^^ 1)
        (simulateTyping (js '' ok '') (js ''t9'') (js ''raw'') (initial :: jstring state)))
       = js '' ok''
   \<and> run_typing 0
        (simulateTyping (js '' ok '') (js ''t9'') (js ''raw'') (initial :: jstring state))
       = (typeNextCharacter 0 ^^ 3)
        (simulateTyping (js '' ok '') (js ''t9'') (js ''raw'') (initial :: jstring state))
   \<and> typingText (run_typing 0
        (simulateTyping (js '' ok '') (js ''t9'') (js ''raw'') (initial :: jstring state)))
       = js '' ok ''
   \<and> 0 < length (timers
        (simulateTyping (js '' ok '') (js ''t9'') (js ''raw'') (initial :: jstring state)))
   \<and> index (timers
        (simulateTyping (js '' ok '') (js ''t9'') (js ''raw'') (initial :: jstring state)) ! 0)
       < length (full_text (timers
        (simulateTyping (js '' ok '') (js ''t9'') (js ''raw'') (initial :: jstring state)) ! 0))
   \<and> index (timers
        (simulateTyping (js '' ok '') (js ''t9'') (js ''raw'') (initial :: jstring state)) ! 0)
       < index (timers (typeNextCharacter 0
        (simulateTyping (js '' ok '') (js ''t9'') (js ''raw'') (initial :: jstring state))) ! 0)"
proof -
  define S :: "jstring state" where "S = run example_lower example_parse
     [FileChosen (Some (js ''sales.csv'')),
      UploadSettled 0 (Response 200 (Some example_sales)) (js ''t0''),
      Input (js ''a''), Submit (js ''t1'')] initial"
  define G :: "jstring state"
    where "G = simulateTyping (js '' ok '') (js ''t9'') (js ''raw'') initial"
  let ?data = "\<lparr>chat_file_id = js ''f1'', chat_filename = js ''sales.csv'',
              analysis = js ''Hello there.''\<rparr>"
  have a: "chats S > 0"
    unfolding S_def sales_asked by simp
  have b: "sendChatMessage example_reply = Inr ?data"
    by (simp add: example_reply_def sendChatMessage_def response_ok_def)
  have st: "timers S = []" "length (messages S) = 2"
    "messages S ! 1 = \<lparr>role = User, content = js ''a'', formattedContent = None,
          timestamp = js ''t1'', charts = None, isTyping = None\<rparr>"
    "timestamp (messages S ! 1) \<noteq> js ''t2''"
    "map isTyping (messages S) = [None, None]"
    unfolding S_def sales_asked by (simp_all add: initial_def js_def)
  have i: "timers (initial :: jstring state) = []"
    by (simp add: initial_def)
  have n: "(12 + 3 - 1) div 3 = (4 :: nat)" "(4 + 3 - 1) div 3 = (2 :: nat)"
    "Suc 4 = 5" "Suc 2 = 3"
    by simp_all
  note T = typing_finishes [OF a b, where jp = example_parse and now = "js ''t2''"
      and s = "initial :: jstring state" and t = "js '' ok ''" and ts = "js ''t9''"
      and raw = "js ''raw''" and q = 0
      and u = "simulateTyping (js '' ok '') (js ''t9'') (js ''raw'') (initial :: jstring state)",
      unfolded Let_def ChatResponse.simps format_hello hello_chunks hello_no_charts st i
        list.size n, folded G_def]
  note A = T [THEN conjunct1]
  note B = T [THEN conjunct2, THEN conjunct1]
  note during = A [THEN conjunct2, THEN conjunct2, THEN conjunct2, THEN conjunct1]
  note adv = A [THEN conjunct2, THEN conjunct2, THEN conjunct2, THEN conjunct2, THEN conjunct1]
  note reach = A [THEN conjunct2, THEN conjunct2, THEN conjunct2, THEN conjunct2, THEN conjunct2,
      THEN conjunct1]
  have 1: "map isTyping (messages ((typeNextCharacter 0 ^^ 4)
        (chatSettled example_parse example_reply (js ''t2'') S))) = [None, None, Some True]"
    using during [rule_format, of 4] st(5) by simp
  have 2: "typingText ((typeNextCharacter 0 ^^ 2)
        (chatSettled example_parse example_reply (js ''t2'') S)) = js ''Hello ''"
    using during [rule_format, of 2] hello_chunks(3) by simp
  have 3: "map index (timers ((typeNextCharacter 0 ^^ 4)
        (chatSettled example_parse example_reply (js ''t2'') S))) = [12]"
    using during [rule_format, of 4] by simp
  have 15: "index (timers ((typeNextCharacter 0 ^^ 1)
        (chatSettled example_parse example_reply (js ''t2'') S)) ! 0)
       < index (timers ((typeNextCharacter 0 ^^ Suc 1)
        (chatSettled example_parse example_reply (js ''t2'') S)) ! 0)"
    by (rule adv [rule_format]) simp
  note 4 = A [THEN conjunct2, THEN conjunct2, THEN conjunct2, THEN conjunct2, THEN conjunct2,
      THEN conjunct2, THEN conjunct1]
  have 5: "last (messages (run_typing 0
        (chatSettled example_parse example_reply (js ''t2'') S)))
       = \<lparr>role = Assistant, content = js ''Hello there.'',
          formattedContent = Some (js ''Hello there.''), timestamp = js ''t2'',
          charts = None, isTyping = Some False\<rparr>"
    using A [THEN conjunct2, THEN conjunct2, THEN conjunct2, THEN conjunct2, THEN conjunct2,
        THEN conjunct2, THEN conjunct2, THEN conjunct2, THEN conjunct1] by simp
  note 6 = A [THEN conjunct2, THEN conjunct2, THEN conjunct2, THEN conjunct2, THEN conjunct2,
      THEN conjunct2, THEN conjunct2, THEN conjunct1]
  note 8 = A [THEN conjunct2, THEN conjunct2, THEN conjunct2, THEN conjunct2, THEN conjunct2,
      THEN conjunct2, THEN conjunct2, THEN conjunct2, THEN conjunct2, THEN conjunct2,
      THEN conjunct2, THEN conjunct2]
  have 7: "messages (run_typing 0
        (chatSettled example_parse example_reply (js ''t2'') S)) ! 1
       = \<lparr>role = User, content = js ''a'', formattedContent = None,
          timestamp = js ''t1'', charts = None, isTyping = None\<rparr>"
    using A [THEN conjunct2, THEN conjunct2, THEN conjunct2, THEN conjunct2, THEN conjunct2,
        THEN conjunct2, THEN conjunct2, THEN conjunct2, THEN conjunct2, THEN conjunct1,
        rule_format, of 1] st(3,4) by simp
  have 9: "typingText ((typeNextCharacter 0 ^^ 1) G) = js '' ok''"
    using B [THEN conjunct2, THEN conjunct2, THEN conjunct1, rule_format,
        of 1] hello_chunks(6) by simp
  note 10 = B [THEN conjunct2, THEN conjunct2, THEN conjunct2, THEN conjunct2, THEN conjunct1]
  have 11: "typingText (run_typing 0 G) = js '' ok ''"
    using B [THEN conjunct2, THEN conjunct2, THEN conjunct2, THEN conjunct2,
        THEN conjunct2] by simp
  have 12: "0 < length (timers G)"
    and 13: "index (timers G ! 0) < length (full_text (timers G ! 0))"
    unfolding G_def by (simp_all add: simulateTyping_def initial_def js_def)
  then have 14: "index (timers G ! 0) < index (timers (typeNextCharacter 0 G) ! 0)"
    using T [THEN conjunct2, THEN conjunct2] by blast
  from a b 1 2 3 15 4 5 6 7 8 9 10 11 12 13 14 show ?thesis
    unfolding S_def G_def by (intro conjI)
qed

section \<open>A successful upload\<close>








section \<open>Facts about the matcher\<close>

lemma rmatch_concat: "rmatch re s = Some (gs, r) \<Longrightarrow> s = concat gs @ r"
proof (induction re s arbitrary: gs r rule: rmatch.induct)
  case (1 s)
  then show ?case by simp
next
  case (2 p its s)
  then show ?case
    by (auto split: if_splits simp: prefix_def)
next
  case (3 P its)
  then show ?case by auto
next
  case (4 P its c cs)
  then show ?case
    by (auto split: if_splits option.splits prod.splits list.splits)
next
  case (5 P its)
  then show ?case by auto
next
  case (6 P its c cs)
  then show ?case
    by (auto split: if_splits option.splits prod.splits list.splits)
qed

lemma rmatch_groups: "rmatch re s = Some (gs, r) \<Longrightarrow> length gs = length re"
proof (induction re s arbitrary: gs r rule: rmatch.induct)
  case (1 s)
  then show ?case by simp
next
  case (2 p its s)
  then show ?case
    by (auto split: if_splits)
next
  case (3 P its)
  then show ?case by auto
next
  case (4 P its c cs)
  then show ?case
    by (auto split: if_splits option.splits prod.splits list.splits)
next
  case (5 P its)
  then show ?case by auto
next
  case (6 P its c cs)
  then show ?case
    by (auto split: if_splits option.splits prod.splits list.splits)
qed

lemma rmatch_Lit_prefix: "rmatch (Lit p # its) s = Some (gs, r) \<Longrightarrow> prefix p s"
  by (auto split: if_splits)

lemma rmatch_shorter:
  "rmatch (Lit p # its) s = Some (gs, r) \<Longrightarrow> p \<noteq> [] \<Longrightarrow> length r < length s"
  by (auto split: if_splits dest!: rmatch_concat simp: prefix_def)

section \<open>Scanning for chart blocks\<close>

lemma drop_proper_suffix:
  "0 < k \<Longrightarrow> k < length pat \<Longrightarrow> drop k pat \<in> set (proper_suffixes pat)"
proof (induction pat arbitrary: k)
  case Nil
  then show ?case by simp
next
  case (Cons x xs)
  then obtain k' where k: "k = Suc k'"
    by (cases k) auto
  show ?case
  proof (cases "k' = 0")
    case True
    with k Cons.prems show ?thesis by auto
  next
    case False
    with k Cons.prems Cons.IH [of k'] show ?thesis by auto
  qed
qed

lemma unbordered_no_straddle:
  assumes "unbordered pat" and "\<not> sublist pat q" and "q \<noteq> []"
  shows "\<not> prefix pat (q @ pat @ r)"
proof
  assume "prefix pat (q @ pat @ r)"
  then have "prefix pat q \<or> (\<exists>us. pat = q @ us \<and> prefix us (pat @ r))"
    by (simp only: prefix_append)
  then consider "prefix pat q" | us where "pat = q @ us" "prefix us (pat @ r)"
    by blast
  then show False
  proof cases
    case 1
    then have "sublist pat q"
      by (rule prefix_imp_sublist)
    with assms(2) show ?thesis by simp
  next
    case 2
    show ?thesis
    proof (cases "us = []")
      case True
      with 2(1) have "sublist pat q" by simp
      with assms(2) show ?thesis by simp
    next
      case False
      have "length us \<le> length pat"
        using 2(1) by simp
      with 2(2) have "prefix us pat"
        using prefix_length_prefix [of us "pat @ r" pat] by simp
      moreover have "drop (length q) pat = us"
        using 2(1) by simp
      moreover have "0 < length q" "length q < length pat"
        using 2(1) assms(3) False by simp_all
      then have "drop (length q) pat \<in> set (proper_suffixes pat)"
        by (rule drop_proper_suffix)
      ultimately show ?thesis
        using assms(1) unfolding unbordered_def list_all_iff by blast
    qed
  qed
qed

lemma lazy_first_occurrence:
  assumes "unbordered pat" and "pat \<noteq> []"
  shows "\<not> sublist pat q \<Longrightarrow>
    rmatch [Lazy (\<lambda>c. True), Lit pat] (q @ pat @ r) = Some ([q, pat], r)"
proof (induction q)
  case Nil
  from assms(2) obtain c cs where eq: "pat @ r = c # cs"
    by (cases pat) auto
  have p: "prefix pat (c # cs)"
    using eq by (metis prefixI)
  have d: "drop (length pat) (c # cs) = r"
    using eq by (metis append_eq_conv_conj)
  show ?case
    unfolding append_Nil eq by (simp add: p d)
next
  case (Cons c q)
  have "\<not> prefix pat ((c # q) @ pat @ r)"
    using assms(1) Cons.prems by (rule unbordered_no_straddle) simp
  moreover have "\<not> sublist pat q"
    using Cons.prems by (auto simp: sublist_Cons_right)
  ultimately show ?case
    using Cons.IH by simp
qed

lemma unbordered_chart_open: "unbordered chart_open"
  by (simp add: unbordered_def chart_open_def js_def)

lemma unbordered_chart_close: "unbordered chart_close"
  by (simp add: unbordered_def chart_close_def js_def)


lemma chart_open_nonempty: "chart_open \<noteq> []" "length chart_open = 14"
  by (simp_all add: chart_open_def js_def)

lemma chart_close_nonempty: "chart_close \<noteq> []" "length chart_close = 4"
  by (simp_all add: chart_close_def js_def)

lemma chart_block_at_head:
  assumes "\<not> sublist chart_close body"
  shows "rmatch chartDataRegex (chart_open @ body @ chart_close @ r)
     = Some ([chart_open, body, chart_close], r)"
  using lazy_first_occurrence [OF unbordered_chart_close chart_close_nonempty(1) assms, of r]
  by (simp add: chartDataRegex_def)

lemma no_chart_block_in_prose:
  assumes "\<not> sublist chart_open p" and "p \<noteq> []"
  shows "rmatch chartDataRegex (p @ chart_open @ w) = None"
  using unbordered_no_straddle [OF unbordered_chart_open assms, of w]
  by (simp add: chartDataRegex_def)

lemma no_chart_block_at_end:
  assumes "\<not> sublist chart_open p"
  shows "rmatch chartDataRegex p = None"
proof -
  have "\<not> prefix chart_open p"
    using assms prefix_imp_sublist by blast
  then show ?thesis
    by (simp add: chartDataRegex_def)
qed

lemma scan_prose_then_block:
  assumes "\<not> sublist chart_close body"
  shows "\<not> sublist chart_open p \<Longrightarrow>
    matchAll chartDataRegex (p @ chart_open @ body @ chart_close @ r)
      = [chart_open, body, chart_close] # matchAll chartDataRegex r
    \<and> replaceAll chartDataRegex rep (p @ chart_open @ body @ chart_close @ r)
      = p @ rep @ replaceAll chartDataRegex rep r"
proof (induction p)
  case Nil
  obtain c cs where eq: "chart_open @ body @ chart_close @ r = c # cs"
    using chart_open_nonempty(1) by (metis append_Cons neq_Nil_conv)
  have m: "rmatch chartDataRegex (c # cs) = Some ([chart_open, body, chart_close], r)"
    using chart_block_at_head [OF assms, of r] eq by simp
  have "length (c # cs) = length chart_open + length body + length chart_close + length r"
    using eq [symmetric] by simp
  then have "length r \<le> length cs"
    using chart_open_nonempty(2) by simp
  then show ?case
    unfolding append_Nil eq by (simp add: m)
next
  case (Cons c p)
  have "rmatch chartDataRegex ((c # p) @ chart_open @ body @ chart_close @ r) = None"
    using Cons.prems by (intro no_chart_block_in_prose) simp_all
  moreover have "\<not> sublist chart_open p"
    using Cons.prems by (auto simp: sublist_Cons_right)
  ultimately show ?case
    using Cons.IH by simp
qed

lemma scan_prose_only:
  "\<not> sublist chart_open p \<Longrightarrow>
    matchAll chartDataRegex p = [] \<and> replaceAll chartDataRegex rep p = p"
proof (induction p)
  case Nil
  then show ?case
    using no_chart_block_at_end [of "[]"] by simp
next
  case (Cons c p)
  have "\<not> sublist chart_open p"
    using Cons.prems by (auto simp: sublist_Cons_right)
  with Cons show ?case
    using no_chart_block_at_end [of "c # p"] by simp
qed

lemma scan_blocks:
  "well_delimited p0 bs \<Longrightarrow>
    matchAll chartDataRegex (p0 @ blocks_text bs)
      = map (\<lambda>(body, prose). [chart_open, body, chart_close]) bs
    \<and> replaceAll chartDataRegex [] (p0 @ blocks_text bs) = p0 @ concat (map snd bs)"
proof (induction bs arbitrary: p0)
  case Nil
  then show ?case
    using scan_prose_only [of p0 "[]"] by (simp add: well_delimited_def)
next
  case (Cons b bs)
  obtain body prose where b: "b = (body, prose)"
    by (cases b)
  from Cons.prems b have wd: "\<not> sublist chart_open p0" "\<not> sublist chart_close body"
    "well_delimited prose bs"
    by (simp_all add: well_delimited_def)
  show ?case
    using scan_prose_then_block [OF wd(2,1), of "prose @ blocks_text bs" "[]"] Cons.IH [OF wd(3)]
    by (simp add: b)
qed

lemma parse_blocks:
  assumes "well_delimited p0 bs"
  shows "parseChartDataFromResponse jp (p0 @ blocks_text bs)
     = Inr (map the (filter (\<lambda>chart. chart \<noteq> None)
              (map (\<lambda>(body, prose). case jp body of Inl err \<Rightarrow> None | Inr v \<Rightarrow> v) bs)),
            concat (map (\<lambda>(body, prose). case jp body of Inl err \<Rightarrow> [err] | Inr v \<Rightarrow> []) bs))"
proof -
  have m: "matchAll chartDataRegex (p0 @ blocks_text bs)
      = map (\<lambda>(body, prose). [chart_open, body, chart_close]) bs"
    using scan_blocks [OF assms] by simp
  have 1: "map (\<lambda>m. case jp (m ! 1) of Inl err \<Rightarrow> None | Inr v \<Rightarrow> v)
        (map (\<lambda>(body, prose). [chart_open, body, chart_close]) bs)
      = map (\<lambda>(body, prose). case jp body of Inl err \<Rightarrow> None | Inr v \<Rightarrow> v) bs" for bs :: "(jstring \<times> jstring) list"
    by (induction bs) auto
  have 2: "map (\<lambda>m. case jp (m ! 1) of Inl err \<Rightarrow> [err] | Inr v \<Rightarrow> [])
        (map (\<lambda>(body, prose). [chart_open, body, chart_close]) bs)
      = map (\<lambda>(body, prose). case jp body of Inl err \<Rightarrow> [err] | Inr v \<Rightarrow> []) bs" for bs :: "(jstring \<times> jstring) list"
    by (induction bs) auto
  show ?thesis
    unfolding parse_charts_eq m 1 2 ..
qed

lemma charts_of_good_blocks:
  "map (\<lambda>(body, prose). jp body) bs = map (\<lambda>c. Inr (Some c)) cs \<Longrightarrow>
   map the (filter (\<lambda>chart. chart \<noteq> None)
     (map (\<lambda>(body, prose). case jp body of Inl err \<Rightarrow> None | Inr v \<Rightarrow> v) bs)) = cs
   \<and> concat (map (\<lambda>(body, prose). case jp body of Inl err \<Rightarrow> [err] | Inr v \<Rightarrow> []) bs) = []"
proof (induction bs arbitrary: cs)
  case Nil
  then show ?case by simp
next
  case (Cons b bs)
  then obtain c cs' where "cs = c # cs'"
    by (cases cs) auto
  with Cons show ?case
    by (cases b) auto
qed

lemma format_blocks:
  assumes "well_delimited p0 bs"
  shows "formatAIResponse (p0 @ blocks_text bs) = tidy (p0 @ concat (map snd bs))"
  using scan_blocks [OF assms] by (simp add: formatAIResponse_def tidy_def)

section \<open>Replacement in general\<close>

lemma no_match_anywhere:
  "(\<And>t. suffix t s \<Longrightarrow> rmatch re t = None) \<Longrightarrow>
     replaceAll re rep s = s \<and> matchAll re s = []"
proof (induction s)
  case Nil
  then show ?case by simp
next
  case (Cons c cs)
  have "rmatch re (c # cs) = None"
    using Cons.prems by simp
  moreover have "replaceAll re rep cs = cs \<and> matchAll re cs = []"
    using Cons.prems by (intro Cons.IH) (simp add: suffix_Cons)
  ultimately show ?case by simp
qed

lemma no_matches_replace: "matchAll re s = [] \<Longrightarrow> replaceAll re rep s = s"
  by (induction s) (auto split: option.splits if_splits)

lemma takeWhile_replaceAll:
  assumes "\<And>t gs r. rmatch re t = Some (gs, r) \<Longrightarrow> t \<noteq> [] \<and> \<not> P (hd t)"
    and "rep \<noteq> []" and "\<not> P (hd rep)"
  shows "takeWhile P (replaceAll re rep s) = takeWhile P s"
proof (induction s)
  case Nil
  have "rmatch re [] = None"
    using assms(1) [of "[]"] by (cases "rmatch re []") auto
  then show ?case by simp
next
  case (Cons c cs)
  have rep: "takeWhile P (rep @ x) = []" for x
    using assms(2,3) by (cases rep) auto
  show ?case
  proof (cases "rmatch re (c # cs)")
    case None
    with Cons show ?thesis by simp
  next
    case (Some a)
    then obtain gs r where "rmatch re (c # cs) = Some (gs, r)"
      by (cases a) auto
    moreover from this have "\<not> P c"
      using assms(1) by fastforce
    ultimately show ?thesis
      using rep by (simp del: append_Cons add: append_Cons [symmetric])
  qed
qed

lemma prefix_replicate_takeWhile:
  "prefix (replicate n a) s \<longleftrightarrow> n \<le> length (takeWhile (\<lambda>c. c = a) s)"
proof (induction s arbitrary: n)
  case Nil
  then show ?case by auto
next
  case (Cons c cs)
  then show ?case
    by (cases n) auto
qed

lemma run_skips_other:
  assumes "0 < k" and "a \<notin> set u"
  shows "sublist (replicate k a) (u @ x) \<Longrightarrow> sublist (replicate k a) x"
  using assms(2)
proof (induction u)
  case Nil
  then show ?case by simp
next
  case (Cons c u)
  from assms(1) obtain k' where k: "k = Suc k'"
    by (cases k) auto
  from Cons.prems(2) have "\<not> prefix (replicate k a) (c # u @ x)"
    by (simp add: k)
  with Cons show ?case
    by (simp add: sublist_Cons_right)
qed

lemma run_kept_by_replaceAll:
  assumes starts: "\<And>t gs r. rmatch re t = Some (gs, r) \<Longrightarrow> t \<noteq> [] \<and> hd t \<noteq> a \<and> length r < length t"
    and rep: "rep \<noteq> []" "a \<notin> set rep"
    and k: "0 < k"
  shows "sublist (replicate k a) (replaceAll re rep s) \<Longrightarrow> sublist (replicate k a) s"
proof (induction s rule: length_induct)
  case (1 s)
  show ?case
  proof (cases s)
    case Nil
    have "rmatch re [] = None"
      using starts [of "[]"] by (cases "rmatch re []") auto
    with 1 Nil show ?thesis by simp
  next
    case (Cons c cs)
    show ?thesis
    proof (cases "rmatch re (c # cs)")
      case None
      with 1 Cons have "sublist (replicate k a) (c # replaceAll re rep cs)"
        by simp
      then consider "prefix (replicate k a) (c # replaceAll re rep cs)"
        | "sublist (replicate k a) (replaceAll re rep cs)"
        by (auto simp: sublist_Cons_right)
      then show ?thesis
      proof cases
        case 1
        from k obtain k' where k': "k = Suc k'"
          by (cases k) auto
        have "hd rep \<noteq> a"
          using rep by (cases rep) auto
        then have tw: "takeWhile (\<lambda>c. c = a) (replaceAll re rep cs) = takeWhile (\<lambda>c. c = a) cs"
          using starts rep(1) by (intro takeWhile_replaceAll) blast+
        from 1 have "c = a" "prefix (replicate k' a) (replaceAll re rep cs)"
          by (auto simp: k')
        then have "prefix (replicate k' a) cs"
          by (simp add: prefix_replicate_takeWhile tw)
        with \<open>c = a\<close> have "prefix (replicate k a) (c # cs)"
          by (simp add: k')
        then show ?thesis
          using Cons prefix_imp_sublist by blast
      next
        case 2
        with "1.IH" Cons have "sublist (replicate k a) cs"
          by simp
        then show ?thesis
          by (simp add: Cons sublist_Cons_right)
      qed
    next
      case (Some m)
      then obtain gs r where m: "rmatch re (c # cs) = Some (gs, r)"
        by (cases m) auto
      from starts [OF m] have len: "length r \<le> length cs"
        by simp
      from rmatch_concat [OF m] have suf: "suffix r (c # cs)"
        by (metis suffixI)
      from 1 Cons m len have "sublist (replicate k a) (rep @ replaceAll re rep r)"
        by simp
      then have "sublist (replicate k a) (replaceAll re rep r)"
        by (rule run_skips_other [OF k rep(2)])
      with "1.IH" Cons len have "sublist (replicate k a) r"
        by simp
      then obtain ps ss where "r = ps @ replicate k a @ ss"
        unfolding sublist_def by blast
      moreover from suf obtain zs where "c # cs = zs @ r"
        unfolding suffix_def by blast
      ultimately have "c # cs = (zs @ ps) @ replicate k a @ ss"
        by simp
      then show ?thesis
        unfolding Cons sublist_def by blast
    qed
  qed
qed

section \<open>Fences in the display text\<close>

lemma fence_replicate: "fence = replicate 3 96"
  by (simp add: fence_def js_def numeral_3_eq_3)

lemma space_chars: "is_space 10" "\<not> is_space 45" "\<not> is_space 96"
  by (simp_all add: is_space_def)

lemma no_fence_no_empty_block:
  assumes "\<not> sublist fence s"
  shows "replaceAll emptyBlockRegex [] s = s"
proof -
  have "rmatch emptyBlockRegex t = None" if "suffix t s" for t
  proof (cases "rmatch emptyBlockRegex t")
    case None
    then show ?thesis .
  next
    case (Some m)
    then have "prefix fence t"
      by (cases m) (auto simp: emptyBlockRegex_def split: if_splits)
    then have "sublist fence s"
      using that by (meson prefix_imp_sublist sublist_order.order_trans suffix_imp_sublist)
    with assms show ?thesis by simp
  qed
  then show ?thesis
    using no_match_anywhere by blast
qed

lemma lineBreaks_starts:
  assumes "rmatch lineBreaksRegex t = Some (gs, r)"
  shows "t \<noteq> [] \<and> hd t = 10 \<and> length r < length t"
proof -
  have "prefix [10, 10, 10] t"
    using assms unfolding lineBreaksRegex_def by (rule rmatch_Lit_prefix)
  moreover have "length r < length t"
    using assms unfolding lineBreaksRegex_def by (rule rmatch_shorter) simp
  ultimately show ?thesis
    by (cases t) auto
qed

lemma rule_starts:
  assumes "rmatch ruleRegex t = Some (gs, r)"
  shows "t \<noteq> [] \<and> hd t = 45 \<and> length r < length t"
proof -
  have "prefix (js ''---'') t"
    using assms unfolding ruleRegex_def by (rule rmatch_Lit_prefix)
  moreover have "length r < length t"
    using assms unfolding ruleRegex_def by (rule rmatch_shorter) (simp add: js_def)
  ultimately show ?thesis
    by (cases t) (auto simp: js_def)
qed

lemma trim_parts:
  "\<exists>l r. s = l @ trim s @ r \<and> (\<forall>c \<in> set l. is_space c) \<and> (\<forall>c \<in> set r. is_space c)"
proof -
  let ?u = "dropWhile is_space s"
  have 1: "s = takeWhile is_space s @ ?u"
    by simp
  have "rev ?u = takeWhile is_space (rev ?u) @ dropWhile is_space (rev ?u)"
    by simp
  then have 2: "?u = trim s @ rev (takeWhile is_space (rev ?u))"
    unfolding trim_def by (metis rev_append rev_rev_ident)
  have "s = takeWhile is_space s @ trim s @ rev (takeWhile is_space (rev ?u))"
    using 1 2 by metis
  moreover have "\<forall>c \<in> set (takeWhile is_space s). is_space c"
    by (meson set_takeWhileD)
  moreover have "\<forall>c \<in> set (rev (takeWhile is_space (rev ?u))). is_space c"
    by (metis set_rev set_takeWhileD)
  ultimately show ?thesis by blast
qed

lemma sublist_trim: "sublist x (trim s) \<Longrightarrow> sublist x s"
proof -
  assume a: "sublist x (trim s)"
  obtain l r where "s = l @ trim s @ r"
    using trim_parts by blast
  then have "sublist (trim s) s"
    unfolding sublist_def by blast
  with a show ?thesis
    by (meson sublist_order.order_trans)
qed

lemma tidy_keeps_fence_free:
  assumes "\<not> sublist fence s"
  shows "\<not> sublist fence (tidy s)"
proof
  assume "sublist fence (tidy s)"
  then have "sublist fence (replaceAll ruleRegex (js ''---\<newline>'')
      (replaceAll lineBreaksRegex [10, 10] s))"
    unfolding tidy_def no_fence_no_empty_block [OF assms] by (rule sublist_trim)
  then have "sublist (replicate 3 96) (replaceAll lineBreaksRegex [10, 10] s)"
    unfolding fence_replicate
    by (rule run_kept_by_replaceAll [rotated -1]) (use rule_starts in \<open>auto simp: js_def\<close>)
  then have "sublist (replicate 3 96) s"
    by (rule run_kept_by_replaceAll [rotated -1]) (use lineBreaks_starts in auto)
  with assms show False
    by (simp add: fence_replicate)
qed

lemma marker_has_fence: "sublist (js ''```chart-data'') s \<Longrightarrow> sublist fence s"
proof -
  assume a: "sublist (js ''```chart-data'') s"
  have "js ''```chart-data'' = fence @ js ''chart-data''"
    by (simp add: fence_def js_def)
  then have "sublist fence (js ''```chart-data'')"
    by (metis prefixI prefix_imp_sublist)
  with a show ?thesis
    by (meson sublist_order.order_trans)
qed

section \<open>Charts and display text of a reply\<close>

text \<open>
  C3, as stated, fails for the display text. The raw text
  \<open>```chart-```chart-data\n{}\n```data\nfoo\<close> is the prose \<open>```chart-\<close>, one chart block
  with the body \<open>{}\<close>, and the prose \<open>data\nfoo\<close>; neither prose contains the opening
  fence and the body parses. Removing the block joins the two pieces of prose, and the
  display text begins with the opening fence of a chart block.
\<close>

theorem display_marker_counterexample:
  "well_delimited (js ''```chart-'') [(js ''{}'', js ''data\<newline>foo'')]
   \<and> example_parse (js ''{}'') = Inr (Some (js ''{}''))
   \<and> js ''```chart-'' @ blocks_text [(js ''{}'', js ''data\<newline>foo'')]
       = js ''```chart-```chart-data\<newline>{}\<newline>```data\<newline>foo''
   \<and> formatAIResponse (js ''```chart-```chart-data\<newline>{}\<newline>```data\<newline>foo'')
       = js ''```chart-data\<newline>foo''
   \<and> prefix chart_open (js ''```chart-data\<newline>foo'')"
proof -
  have wd: "well_delimited (js ''```chart-'') [(js ''{}'', js ''data\<newline>foo'')]"
    by (simp add: well_delimited_def chart_open_def chart_close_def js_def sublist_Cons_right)
  have eq: "js ''```chart-'' @ blocks_text [(js ''{}'', js ''data\<newline>foo'')]
       = js ''```chart-```chart-data\<newline>{}\<newline>```data\<newline>foo''"
    by (simp add: chart_open_def chart_close_def js_def)
  have 2: "replaceAll emptyBlockRegex [] (js ''```chart-data\<newline>foo'') = js ''```chart-data\<newline>foo''"
    by (simp add: emptyBlockRegex_def fence_def js_def is_space_def)
  have 3: "replaceAll lineBreaksRegex [10, 10] (js ''```chart-data\<newline>foo'') = js ''```chart-data\<newline>foo''"
    by (simp add: lineBreaksRegex_def js_def)
  have 4: "replaceAll ruleRegex (js ''---\<newline>'') (js ''```chart-data\<newline>foo'') = js ''```chart-data\<newline>foo''"
    by (simp add: ruleRegex_def js_def)
  have 5: "trim (js ''```chart-data\<newline>foo'') = js ''```chart-data\<newline>foo''"
    by (simp add: trim_def js_def is_space_def)
  have "js ''```chart-'' @ concat (map snd [(js ''{}'', js ''data\<newline>foo'')])
      = js ''```chart-data\<newline>foo''"
    by (simp add: js_def)
  then have f: "formatAIResponse (js ''```chart-```chart-data\<newline>{}\<newline>```data\<newline>foo'')
       = js ''```chart-data\<newline>foo''"
    using format_blocks [OF wd] unfolding eq tidy_def by (simp add: 2 3 4 5)
  have p: "example_parse (js ''{}'') = Inr (Some (js ''{}''))"
    by (simp add: example_parse_def js_def)
  have q: "prefix chart_open (js ''```chart-data\<newline>foo'')"
    by (simp add: chart_open_def js_def)
  from wd p eq f q show ?thesis by blast
qed

text \<open>
  C3, amended. A raw text made of prose and \<open>N\<close> chart blocks, where no prose contains
  the opening fence, no body contains the closing fence and every body parses to a
  chart, gives exactly the \<open>N\<close> charts in the order of the blocks, with nothing written
  to the console. The display text is the prose before, between and after the blocks,
  joined and tidied: every block is removed. It contains no chart-data fence whenever
  the joined prose contains no run of three backticks.
\<close>

theorem chart_blocks_extracted:
  assumes "well_delimited p0 bs"
    and "map (\<lambda>(body, prose). JSON_parse body) bs = map (\<lambda>c. Inr (Some c)) cs"
  shows "parseChartDataFromResponse JSON_parse (p0 @ blocks_text bs) = Inr (cs, [])
     \<and> formatAIResponse (p0 @ blocks_text bs) = tidy (p0 @ concat (map snd bs))
     \<and> (\<not> sublist fence (p0 @ concat (map snd bs)) \<longrightarrow>
          \<not> sublist (js ''```chart-data'') (formatAIResponse (p0 @ blocks_text bs)))"
proof -
  have 1: "parseChartDataFromResponse JSON_parse (p0 @ blocks_text bs) = Inr (cs, [])"
    unfolding parse_blocks [OF assms(1)] using charts_of_good_blocks [OF assms(2)] by simp
  have 2: "formatAIResponse (p0 @ blocks_text bs) = tidy (p0 @ concat (map snd bs))"
    by (rule format_blocks [OF assms(1)])
  have 3: "\<not> sublist fence (p0 @ concat (map snd bs)) \<longrightarrow>
          \<not> sublist (js ''```chart-data'') (formatAIResponse (p0 @ blocks_text bs))"
    unfolding 2 using tidy_keeps_fence_free marker_has_fence by blast
  from 1 2 3 show ?thesis by blast
qed

lemma totals_tidy: "tidy (js ''Totals:\<newline>\<newline>Done.'') = js ''Totals:\<newline>\<newline>Done.''"
proof -
  have 2: "replaceAll emptyBlockRegex [] (js ''Totals:\<newline>\<newline>Done.'') = js ''Totals:\<newline>\<newline>Done.''"
    by (simp add: emptyBlockRegex_def fence_def js_def is_space_def)
  have 3: "replaceAll lineBreaksRegex [10, 10] (js ''Totals:\<newline>\<newline>Done.'') = js ''Totals:\<newline>\<newline>Done.''"
    by (simp add: lineBreaksRegex_def js_def)
  have 4: "replaceAll ruleRegex (js ''---\<newline>'') (js ''Totals:\<newline>\<newline>Done.'') = js ''Totals:\<newline>\<newline>Done.''"
    by (simp add: ruleRegex_def js_def)
  have 5: "trim (js ''Totals:\<newline>\<newline>Done.'') = js ''Totals:\<newline>\<newline>Done.''"
    by (simp add: trim_def js_def is_space_def)
  show ?thesis
    unfolding tidy_def 2 3 4 5 ..
qed

theorem chart_blocks_extracted_witness:
  "well_delimited (js ''Totals:\<newline>'') [(js ''{bar}'', js ''\<newline>Done.'')]
   \<and> map (\<lambda>(body, prose). example_parse body) [(js ''{bar}'', js ''\<newline>Done.'')]
       = map (\<lambda>c. Inr (Some c)) [js ''{bar}'']
   \<and> \<not> sublist fence (js ''Totals:\<newline>'' @ concat (map snd [(js ''{bar}'', js ''\<newline>Done.'')]))
   \<and> js ''Totals:\<newline>'' @ blocks_text [(js ''{bar}'', js ''\<newline>Done.'')]
       = js ''Totals:\<newline>```chart-data\<newline>{bar}\<newline>```\<newline>Done.''
   \<and> parseChartDataFromResponse example_parse
         (js ''Totals:\<newline>```chart-data\<newline>{bar}\<newline>```\<newline>Done.'')
       = Inr ([js ''{bar}''], [])
   \<and> formatAIResponse (js ''Totals:\<newline>```chart-data\<newline>{bar}\<newline>```\<newline>Done.'')
       = js ''Totals:\<newline>\<newline>Done.''
   \<and> \<not> sublist (js ''```chart-data'')
         (formatAIResponse (js ''Totals:\<newline>```chart-data\<newline>{bar}\<newline>```\<newline>Done.''))"
proof -
  have wd: "well_delimited (js ''Totals:\<newline>'') [(js ''{bar}'', js ''\<newline>Done.'')]"
    by (simp add: well_delimited_def chart_open_def chart_close_def js_def sublist_Cons_right)
  have p: "map (\<lambda>(body, prose). example_parse body) [(js ''{bar}'', js ''\<newline>Done.'')]
       = map (\<lambda>c. Inr (Some c)) [js ''{bar}'']"
    by (simp add: example_parse_def js_def)
  have j: "js ''Totals:\<newline>'' @ concat (map snd [(js ''{bar}'', js ''\<newline>Done.'')])
      = js ''Totals:\<newline>\<newline>Done.''"
    by (simp add: js_def)
  have nf: "\<not> sublist fence (js ''Totals:\<newline>'' @ concat (map snd [(js ''{bar}'', js ''\<newline>Done.'')]))"
    unfolding j by (simp add: fence_def js_def sublist_Cons_right)
  have eq: "js ''Totals:\<newline>'' @ blocks_text [(js ''{bar}'', js ''\<newline>Done.'')]
       = js ''Totals:\<newline>```chart-data\<newline>{bar}\<newline>```\<newline>Done.''"
    by (simp add: chart_open_def chart_close_def js_def)
  show ?thesis
    using wd p nf eq chart_blocks_extracted [OF wd p]
    unfolding eq j totals_tidy
    by blast
qed

lemma charts_with_one_bad_block:
  assumes "map (\<lambda>(body, prose). jp body) bs1 = map (\<lambda>c. Inr (Some c)) cs1"
    and "map (\<lambda>(body, prose). jp body) bs2 = map (\<lambda>c. Inr (Some c)) cs2"
    and "jp bad = Inl err"
  shows "map the (filter (\<lambda>chart. chart \<noteq> None)
     (map (\<lambda>(body, prose). case jp body of Inl err \<Rightarrow> None | Inr v \<Rightarrow> v)
        (bs1 @ (bad, p) # bs2))) = cs1 @ cs2
   \<and> concat (map (\<lambda>(body, prose). case jp body of Inl err \<Rightarrow> [err] | Inr v \<Rightarrow> [])
        (bs1 @ (bad, p) # bs2)) = [err]"
  using charts_of_good_blocks [OF assms(1)] charts_of_good_blocks [OF assms(2)] assms(3)
  by (simp del: concat_eq_Nil_conv not_None_eq)

text \<open>
  C6. A raw text made of prose and chart blocks, where no prose contains the opening
  fence and no body contains the closing fence, in which one body makes \<open>JSON.parse\<close>
  throw and every other body parses to a chart, gives exactly the charts of the other
  blocks, in their order. The failure is written to the console once. The display text
  is the prose before, between and after all the blocks, joined and tidied, so the
  malformed block is removed like the others. When such a text arrives as a reply, no
  toast is shown, one line is written to the console, and the placeholder carries the
  charts of the other blocks.
\<close>

theorem malformed_block_dropped:
  assumes "well_delimited p0 (bs1 @ (bad, prose) # bs2)"
    and "map (\<lambda>(body, prose). JSON_parse body) bs1 = map (\<lambda>c. Inr (Some c)) cs1"
    and "map (\<lambda>(body, prose). JSON_parse body) bs2 = map (\<lambda>c. Inr (Some c)) cs2"
    and "JSON_parse bad = Inl err"
  shows "parseChartDataFromResponse JSON_parse (p0 @ blocks_text (bs1 @ (bad, prose) # bs2))
       = Inr (cs1 @ cs2, [err])
     \<and> formatAIResponse (p0 @ blocks_text (bs1 @ (bad, prose) # bs2))
       = tidy (p0 @ concat (map snd (bs1 @ (bad, prose) # bs2)))
     \<and> (chats st > 0 \<and> sendChatMessage outcome = Inr data
          \<and> analysis data = p0 @ blocks_text (bs1 @ (bad, prose) # bs2) \<longrightarrow>
          toasts (chatSettled JSON_parse outcome now st) = toasts st
          \<and> console (chatSettled JSON_parse outcome now st)
              = console st @ [js ''Failed to parse chart data:'']
          \<and> charts (last (messages (chatSettled JSON_parse outcome now st)))
              = (if cs1 @ cs2 = [] then None else Some (cs1 @ cs2)))"
proof -
  have 1: "parseChartDataFromResponse JSON_parse (p0 @ blocks_text (bs1 @ (bad, prose) # bs2))
       = Inr (cs1 @ cs2, [err])"
    unfolding parse_blocks [OF assms(1)]
    using charts_with_one_bad_block [OF assms(2,3,4)] by simp
  have 2: "formatAIResponse (p0 @ blocks_text (bs1 @ (bad, prose) # bs2))
       = tidy (p0 @ concat (map snd (bs1 @ (bad, prose) # bs2)))"
    by (rule format_blocks [OF assms(1)])
  from 1 have e: "extracted_charts JSON_parse (p0 @ blocks_text (bs1 @ (bad, prose) # bs2)) = cs1 @ cs2"
    "logged_errors JSON_parse (p0 @ blocks_text (bs1 @ (bad, prose) # bs2)) = [err]"
    by (simp_all add: parse_eq)
  have 3: "chats st > 0 \<and> sendChatMessage outcome = Inr data
          \<and> analysis data = p0 @ blocks_text (bs1 @ (bad, prose) # bs2) \<longrightarrow>
          toasts (chatSettled JSON_parse outcome now st) = toasts st
          \<and> console (chatSettled JSON_parse outcome now st)
              = console st @ [js ''Failed to parse chart data:'']
          \<and> charts (last (messages (chatSettled JSON_parse outcome now st)))
              = (if cs1 @ cs2 = [] then None else Some (cs1 @ cs2))"
    by (simp add: chatSettled_eq e)
  from 1 2 3 show ?thesis by blast
qed

lemma three_blocks_tidy: "tidy (js ''ABCD'') = js ''ABCD''"
proof -
  have 2: "replaceAll emptyBlockRegex [] (js ''ABCD'') = js ''ABCD''"
    by (simp add: emptyBlockRegex_def fence_def js_def is_space_def)
  have 3: "replaceAll lineBreaksRegex [10, 10] (js ''ABCD'') = js ''ABCD''"
    by (simp add: lineBreaksRegex_def js_def)
  have 4: "replaceAll ruleRegex (js ''---\<newline>'') (js ''ABCD'') = js ''ABCD''"
    by (simp add: ruleRegex_def js_def)
  have 5: "trim (js ''ABCD'') = js ''ABCD''"
    by (simp add: trim_def js_def is_space_def)
  show ?thesis
    unfolding tidy_def 2 3 4 5 ..
qed

theorem malformed_block_dropped_witness:
  "well_delimited (js ''A'') ([(js ''{x}'', js ''B'')] @ (js ''oops'', js ''C'') # [(js ''{y}'', js ''D'')])
   \<and> example_parse (js ''oops'') = Inl SyntaxError
   \<and> js ''A'' @ blocks_text ([(js ''{x}'', js ''B'')] @ (js ''oops'', js ''C'') # [(js ''{y}'', js ''D'')])
       = js ''A```chart-data\<newline>{x}\<newline>```B```chart-data\<newline>oops\<newline>```C```chart-data\<newline>{y}\<newline>```D''
   \<and> parseChartDataFromResponse example_parse
         (js ''A```chart-data\<newline>{x}\<newline>```B```chart-data\<newline>oops\<newline>```C```chart-data\<newline>{y}\<newline>```D'')
       = Inr ([js ''{x}'', js ''{y}''], [SyntaxError])
   \<and> formatAIResponse
         (js ''A```chart-data\<newline>{x}\<newline>```B```chart-data\<newline>oops\<newline>```C```chart-data\<newline>{y}\<newline>```D'')
       = js ''ABCD''
   \<and> toasts (chatSettled example_parse
         (Response 200 (Some \<lparr>chat_file_id = js ''f1'', chat_filename = js ''sales.csv'',
            analysis = js ''A```chart-data\<newline>{x}\<newline>```B```chart-data\<newline>oops\<newline>```C```chart-data\<newline>{y}\<newline>```D''\<rparr>))
         (js ''t2'') ((initial :: jstring state)\<lparr>chats := 1\<rparr>)) = []"
proof -
  have wd: "well_delimited (js ''A'')
      ([(js ''{x}'', js ''B'')] @ (js ''oops'', js ''C'') # [(js ''{y}'', js ''D'')])"
    by (simp add: well_delimited_def chart_open_def chart_close_def js_def sublist_Cons_right)
  have p1: "map (\<lambda>(body, prose). example_parse body) [(js ''{x}'', js ''B'')]
       = map (\<lambda>c. Inr (Some c)) [js ''{x}'']"
    by (simp add: example_parse_def js_def)
  have p2: "map (\<lambda>(body, prose). example_parse body) [(js ''{y}'', js ''D'')]
       = map (\<lambda>c. Inr (Some c)) [js ''{y}'']"
    by (simp add: example_parse_def js_def)
  have p3: "example_parse (js ''oops'') = Inl SyntaxError"
    by (simp add: example_parse_def js_def)
  have eq: "js ''A'' @ blocks_text ([(js ''{x}'', js ''B'')] @ (js ''oops'', js ''C'') # [(js ''{y}'', js ''D'')])
       = js ''A```chart-data\<newline>{x}\<newline>```B```chart-data\<newline>oops\<newline>```C```chart-data\<newline>{y}\<newline>```D''"
    by (simp add: chart_open_def chart_close_def js_def)
  have j: "js ''A'' @ concat (map snd ([(js ''{x}'', js ''B'')] @ (js ''oops'', js ''C'') # [(js ''{y}'', js ''D'')]))
      = js ''ABCD''"
    by (simp add: js_def)
  have c: "chats ((initial :: jstring state)\<lparr>chats := 1\<rparr>) > 0"
    "toasts ((initial :: jstring state)\<lparr>chats := 1\<rparr>) = []"
    by (simp_all add: initial_def)
  have s: "sendChatMessage (Response 200 (Some \<lparr>chat_file_id = js ''f1'', chat_filename = js ''sales.csv'',
            analysis = js ''A```chart-data\<newline>{x}\<newline>```B```chart-data\<newline>oops\<newline>```C```chart-data\<newline>{y}\<newline>```D''\<rparr>))
      = Inr \<lparr>chat_file_id = js ''f1'', chat_filename = js ''sales.csv'',
            analysis = js ''A```chart-data\<newline>{x}\<newline>```B```chart-data\<newline>oops\<newline>```C```chart-data\<newline>{y}\<newline>```D''\<rparr>"
    by (simp add: sendChatMessage_def response_ok_def)
  show ?thesis
    using wd p3 eq c(1) s
      malformed_block_dropped [OF wd p1 p2 p3,
        of "(initial :: jstring state)\<lparr>chats := 1\<rparr>"
           "Response 200 (Some \<lparr>chat_file_id = js ''f1'', chat_filename = js ''sales.csv'',
            analysis = js ''A```chart-data\<newline>{x}\<newline>```B```chart-data\<newline>oops\<newline>```C```chart-data\<newline>{y}\<newline>```D''\<rparr>)"
           "\<lparr>chat_file_id = js ''f1'', chat_filename = js ''sales.csv'',
            analysis = js ''A```chart-data\<newline>{x}\<newline>```B```chart-data\<newline>oops\<newline>```C```chart-data\<newline>{y}\<newline>```D''\<rparr>"
           "js ''t2''"]
    unfolding eq j three_blocks_tidy c(2) ChatResponse.simps
    by simp
qed

section \<open>Where the clean-up patterns match\<close>

lemma star_at_end: "rmatch [Star P] s = Some ([takeWhile P s], dropWhile P s)"
  by (induction s) auto

lemma lineBreaks_match:
  "rmatch lineBreaksRegex t =
     (if prefix [10, 10, 10] t
      then Some ([[10, 10, 10], takeWhile (\<lambda>c. c = 10) (drop 3 t)],
                 dropWhile (\<lambda>c. c = 10) (drop 3 t))
      else None)"
  by (simp add: lineBreaksRegex_def star_at_end numeral_3_eq_3 [symmetric])

lemma star_groups:
  "rmatch (Star P # its) s = Some (gs, r) \<Longrightarrow> \<exists>g gs'. gs = g # gs'"
  using rmatch_groups [of "Star P # its" s gs r] by (cases gs) auto

lemma star_lf_matches:
  "rmatch [Star is_space, Lit [10]] s \<noteq> None \<longleftrightarrow> 10 \<in> set (takeWhile is_space s)"
proof (induction s)
  case Nil
  then show ?case by simp
next
  case (Cons c cs)
  show ?case
  proof (cases "rmatch [Star is_space, Lit [10]] cs")
    case None
    with Cons show ?thesis
      by (auto simp: space_chars)
  next
    case (Some m)
    obtain gs r where m: "m = (gs, r)" by (cases m)
    with Some star_groups obtain g gs' where "gs = g # gs'" by blast
    with Some m Cons show ?thesis
      by (auto simp: space_chars)
  qed
qed

lemma star_lf_rest:
  "rmatch [Star is_space, Lit [10]] s = Some (gs, r) \<Longrightarrow> 10 \<notin> set (takeWhile is_space r)"
proof (induction s arbitrary: gs r)
  case Nil
  then show ?case by simp
next
  case (Cons c cs)
  show ?case
  proof (cases "rmatch [Star is_space, Lit [10]] cs")
    case None
    then have "10 \<notin> set (takeWhile is_space cs)"
      using star_lf_matches [of cs] by simp
    with None Cons.prems show ?thesis
      by (auto simp: space_chars split: if_splits)
  next
    case (Some m)
    obtain gs' r' where m: "m = (gs', r')" by (cases m)
    with Some star_groups obtain g gs'' where "gs' = g # gs''" by blast
    with Some m Cons show ?thesis
      by (auto simp: space_chars split: if_splits)
  qed
qed

lemma lf_in_count: "10 \<in> set xs \<longleftrightarrow> 1 \<le> count_list xs (10::nat)"
  by (induction xs) auto

lemma rule_tail_matches:
  "rmatch [Star is_space, Lit [10], Star is_space, Lit [10]] s \<noteq> None
     \<longleftrightarrow> 2 \<le> count_list (takeWhile is_space s) 10"
proof (induction s)
  case Nil
  then show ?case by simp
next
  case (Cons c cs)
  have lf: "rmatch [Star is_space, Lit [10]] cs \<noteq> None \<longleftrightarrow> 1 \<le> count_list (takeWhile is_space cs) 10"
    using star_lf_matches [of cs] lf_in_count by simp
  show ?case
  proof (cases "rmatch [Star is_space, Lit [10], Star is_space, Lit [10]] cs")
    case None
    with Cons lf show ?thesis
      by (cases "rmatch [Star is_space, Lit [10]] cs") (auto simp: space_chars)
  next
    case (Some m)
    obtain gs r where m: "m = (gs, r)" by (cases m)
    with Some star_groups obtain g gs' where "gs = g # gs'" by blast
    with Some m Cons show ?thesis
      by (auto simp: space_chars)
  qed
qed

lemma rule_tail_rest:
  "rmatch [Star is_space, Lit [10], Star is_space, Lit [10]] s = Some (gs, r) \<Longrightarrow>
     10 \<notin> set (takeWhile is_space r)"
proof (induction s arbitrary: gs r)
  case Nil
  then show ?case by simp
next
  case (Cons c cs)
  show ?case
  proof (cases "rmatch [Star is_space, Lit [10], Star is_space, Lit [10]] cs")
    case None
    with Cons.prems obtain gs' where "rmatch [Star is_space, Lit [10]] cs = Some (gs', r)"
      by (auto simp: space_chars split: if_splits)
    then show ?thesis
      by (rule star_lf_rest)
  next
    case (Some m)
    obtain gs' r' where m: "m = (gs', r')" by (cases m)
    with Some star_groups obtain g gs'' where "gs' = g # gs''" by blast
    with Some m Cons show ?thesis
      by (auto simp: space_chars split: if_splits)
  qed
qed

lemma rule_match_iff: "rmatch ruleRegex t \<noteq> None \<longleftrightarrow> rule_head t"
  using rule_tail_matches [of "drop 3 t"]
  by (auto simp: ruleRegex_def rule_head_def js_def numeral_3_eq_3 [symmetric] split: if_splits)

lemma rule_match_rest:
  assumes "rmatch ruleRegex t = Some (gs, r)"
  shows "10 \<notin> set (takeWhile is_space r)"
proof -
  from assms obtain gs' where
    "rmatch [Star is_space, Lit [10], Star is_space, Lit [10]] (drop 3 t) = Some (gs', r)"
    by (auto simp: ruleRegex_def js_def numeral_3_eq_3 [symmetric] split: if_splits)
  then show ?thesis
    by (rule rule_tail_rest)
qed

section \<open>Collapsing line breaks\<close>

lemma lines_Nil: "replaceAll lineBreaksRegex rep [] = []"
  by (simp add: lineBreaks_match)

lemma lines_Cons:
  "replaceAll lineBreaksRegex rep (c # cs) =
     (if prefix [10, 10, 10] (c # cs)
      then rep @ replaceAll lineBreaksRegex rep (dropWhile (\<lambda>c. c = 10) (drop 3 (c # cs)))
      else c # replaceAll lineBreaksRegex rep cs)"
proof (cases "prefix [10, 10, 10] (c # cs)")
  case True
  have "length (dropWhile (\<lambda>c. c = 10) (drop 3 (c # cs))) \<le> length (drop 3 (c # cs))"
    by (rule length_dropWhile_le)
  then have "length (dropWhile (\<lambda>c. c = 10) (drop 3 (c # cs))) \<le> length cs"
    by simp
  with True show ?thesis
    by (simp add: lineBreaks_match del: drop_Cons_numeral)
next
  case False
  then show ?thesis
    by (auto simp add: lineBreaks_match)
qed

lemma lf3: "[10, 10, 10] = replicate 3 (10::nat)"
  by (simp add: numeral_3_eq_3)

lemma lf2: "[10, 10] = replicate 2 (10::nat)"
  by (simp add: numeral_2_eq_2)

lemma lines_run:
  "length (takeWhile (\<lambda>c. c = 10) (replaceAll lineBreaksRegex [10, 10] s))
   = (if 3 \<le> length (takeWhile (\<lambda>c. c = 10) s) then 2
      else length (takeWhile (\<lambda>c. c = 10) s))"
proof (induction s rule: length_induct)
  case (1 s)
  show ?case
  proof (cases s)
    case Nil
    then show ?thesis by (simp add: lines_Nil del: replaceAll.simps)
  next
    case (Cons c cs)
    show ?thesis
    proof (cases "prefix [10, 10, 10] (c # cs)")
      case True
      let ?r = "dropWhile (\<lambda>c. c = 10) (drop 3 (c # cs))"
      have "length ?r \<le> length (drop 3 (c # cs))"
        by (rule length_dropWhile_le)
      then have "length ?r < length s"
        using Cons by simp
      moreover have "takeWhile (\<lambda>c. c = 10) ?r = []"
        by (metis (mono_tags, lifting) dropWhile_eq_Nil_conv hd_dropWhile takeWhile.simps(1)
            takeWhile_eq_Nil_iff)
      ultimately have "takeWhile (\<lambda>c. c = 10) (replaceAll lineBreaksRegex [10, 10] ?r) = []"
        using "1.IH" by auto
      moreover have "3 \<le> length (takeWhile (\<lambda>c. c = 10) (c # cs))"
        using True unfolding lf3 prefix_replicate_takeWhile .
      ultimately show ?thesis
        using True Cons by (simp add: lines_Cons del: drop_Cons_numeral replaceAll.simps)
    next
      case False
      then have small: "\<not> 3 \<le> length (takeWhile (\<lambda>c. c = 10) (c # cs))"
        unfolding lf3 prefix_replicate_takeWhile .
      show ?thesis
      proof (cases "c = 10")
        case True
        with small have "\<not> 3 \<le> length (takeWhile (\<lambda>c. c = 10) cs)"
          by simp
        with "1.IH" Cons have "length (takeWhile (\<lambda>c. c = 10) (replaceAll lineBreaksRegex [10, 10] cs))
            = length (takeWhile (\<lambda>c. c = 10) cs)"
          by simp
        with True False small Cons show ?thesis
          by (simp add: lines_Cons del: replaceAll.simps)
      next
        case False
        with \<open>\<not> prefix [10, 10, 10] (c # cs)\<close> Cons show ?thesis
          by (simp add: lines_Cons del: replaceAll.simps)
      qed
    qed
  qed
qed

lemma lines_no_triple: "\<not> sublist [10, 10, 10] (replaceAll lineBreaksRegex [10, 10] s)"
proof (induction s rule: length_induct)
  case (1 s)
  show ?case
  proof (cases s)
    case Nil
    then show ?thesis by (simp add: lines_Nil del: replaceAll.simps)
  next
    case (Cons c cs)
    show ?thesis
    proof (cases "prefix [10, 10, 10] (c # cs)")
      case True
      let ?r = "dropWhile (\<lambda>c. c = 10) (drop 3 (c # cs))"
      let ?y = "replaceAll lineBreaksRegex [10, 10] ?r"
      have "length ?r \<le> length (drop 3 (c # cs))"
        by (rule length_dropWhile_le)
      then have len: "length ?r < length s"
        using Cons by simp
      have "takeWhile (\<lambda>c. c = 10) ?r = []"
        by (metis (mono_tags, lifting) dropWhile_eq_Nil_conv hd_dropWhile takeWhile.simps(1)
            takeWhile_eq_Nil_iff)
      then have "length (takeWhile (\<lambda>c. c = 10) ?y) = 0"
        using lines_run [of ?r] by simp
      then have "\<not> prefix (replicate 1 10) ?y" "\<not> prefix (replicate 2 10) ?y"
        unfolding prefix_replicate_takeWhile by simp_all
      moreover have "\<not> sublist [10, 10, 10] ?y"
        using "1.IH" len by blast
      ultimately have "\<not> sublist [10, 10, 10] (10 # 10 # ?y)"
        by (simp add: sublist_Cons_right numeral_2_eq_2)
      with True Cons show ?thesis
        by (simp add: lines_Cons del: drop_Cons_numeral replaceAll.simps)
    next
      case False
      let ?y = "replaceAll lineBreaksRegex [10, 10] cs"
      have ih: "\<not> sublist [10, 10, 10] ?y"
        using "1.IH" Cons by simp
      have "\<not> prefix [10, 10, 10] (c # ?y)"
      proof
        assume "prefix [10, 10, 10] (c # ?y)"
        then have c: "c = 10" and "prefix (replicate 2 10) ?y"
          by (simp_all add: numeral_2_eq_2)
        then have "2 \<le> length (takeWhile (\<lambda>c. c = 10) ?y)"
          unfolding prefix_replicate_takeWhile by simp
        then have "2 \<le> length (takeWhile (\<lambda>c. c = 10) cs)"
          using lines_run [of cs] by (simp split: if_splits)
        then have "prefix (replicate 2 10) cs"
          unfolding prefix_replicate_takeWhile .
        with c have "prefix [10, 10, 10] (c # cs)"
          by (simp add: numeral_2_eq_2)
        with False show False by simp
      qed
      moreover have "replaceAll lineBreaksRegex [10, 10] (c # cs) = c # ?y"
        by (subst lines_Cons) (simp only: False if_False)
      ultimately show ?thesis
        unfolding Cons using ih by (simp add: sublist_Cons_right del: replaceAll.simps)
    qed
  qed
qed

section \<open>Cleaning after rules\<close>

lemma rule_Nil: "replaceAll ruleRegex rep [] = []"
  by (simp add: ruleRegex_def js_def)

lemma rule_Cons_None:
  "rmatch ruleRegex (c # cs) = None \<Longrightarrow>
     replaceAll ruleRegex rep (c # cs) = c # replaceAll ruleRegex rep cs"
  by simp

lemma rule_Cons_Some:
  assumes "rmatch ruleRegex (c # cs) = Some (gs, r)"
  shows "replaceAll ruleRegex rep (c # cs) = rep @ replaceAll ruleRegex rep r"
    and "length r \<le> length cs" and "suffix r (c # cs)" and "c = 45"
proof -
  from rule_starts [OF assms] show len: "length r \<le> length cs" and "c = 45"
    by simp_all
  from rmatch_concat [OF assms] show "suffix r (c # cs)"
    by (metis suffixI)
  from assms len show "replaceAll ruleRegex rep (c # cs) = rep @ replaceAll ruleRegex rep r"
    by simp
qed

lemma rule_takeWhile:
  assumes "\<not> P 45"
  shows "takeWhile P (replaceAll ruleRegex (js ''---\<newline>'') s) = takeWhile P s"
proof (rule takeWhile_replaceAll)
  fix t gs r
  assume "rmatch ruleRegex t = Some (gs, r)"
  from rule_starts [OF this] assms show "t \<noteq> [] \<and> \<not> P (hd t)"
    by simp
next
  show "js ''---\<newline>'' \<noteq> []" "\<not> P (hd (js ''---\<newline>''))"
    using assms by (simp_all add: js_def)
qed

lemma suffix_keeps_no_triple:
  "suffix r s \<Longrightarrow> \<not> sublist x s \<Longrightarrow> \<not> sublist x r"
  by (meson sublist_order.order_trans suffix_imp_sublist)

lemma rules_no_triple:
  "\<not> sublist [10, 10, 10] s \<Longrightarrow>
     \<not> sublist [10, 10, 10] (replaceAll ruleRegex (js ''---\<newline>'') s)"
proof (induction s rule: length_induct)
  case (1 s)
  show ?case
  proof (cases s)
    case Nil
    then show ?thesis by (simp add: rule_Nil del: replaceAll.simps)
  next
    case (Cons c cs)
    show ?thesis
    proof (cases "rmatch ruleRegex (c # cs)")
      case None
      let ?y = "replaceAll ruleRegex (js ''---\<newline>'') cs"
      have "\<not> sublist [10, 10, 10] cs"
        using "1.prems" Cons by (simp add: sublist_Cons_right)
      then have ih: "\<not> sublist [10, 10, 10] ?y"
        using "1.IH" Cons by simp
      have "\<not> prefix [10, 10, 10] (c # ?y)"
      proof
        assume "prefix [10, 10, 10] (c # ?y)"
        then have c: "c = 10" and "prefix (replicate 2 10) ?y"
          by (simp_all add: numeral_2_eq_2)
        then have "2 \<le> length (takeWhile (\<lambda>c. c = 10) ?y)"
          unfolding prefix_replicate_takeWhile by simp
        then have "2 \<le> length (takeWhile (\<lambda>c. c = 10) cs)"
          by (simp add: rule_takeWhile)
        then have "prefix (replicate 2 10) cs"
          unfolding prefix_replicate_takeWhile .
        with c have "prefix [10, 10, 10] (c # cs)"
          by (simp add: numeral_2_eq_2)
        with "1.prems" Cons show False
          using prefix_imp_sublist by blast
      qed
      then show ?thesis
        unfolding Cons rule_Cons_None [OF None] using ih
        by (simp add: sublist_Cons_right del: replaceAll.simps)
    next
      case (Some m)
      obtain gs r where m: "rmatch ruleRegex (c # cs) = Some (gs, r)"
        using Some by (cases m) auto
      let ?y = "replaceAll ruleRegex (js ''---\<newline>'') r"
      note facts = rule_Cons_Some [OF m]
      have "\<not> sublist [10, 10, 10] r"
        using facts(3) "1.prems" Cons suffix_keeps_no_triple by blast
      then have ih: "\<not> sublist [10, 10, 10] ?y"
        using "1.IH" facts(2) Cons by simp
      have "takeWhile (\<lambda>c. c = 10) r = []"
      proof (cases r)
        case Nil
        then show ?thesis by simp
      next
        case (Cons x xs)
        with rule_match_rest [OF m] have "x \<noteq> 10"
          by (auto simp: space_chars)
        with Cons show ?thesis by simp
      qed
      then have "length (takeWhile (\<lambda>c. c = 10) ?y) = 0"
        by (simp add: rule_takeWhile)
      then have "\<not> prefix (replicate 2 10) ?y"
        unfolding prefix_replicate_takeWhile by simp
      then have "\<not> sublist [10, 10, 10] (js ''---\<newline>'' @ ?y)"
        using ih by (simp add: js_def sublist_Cons_right numeral_2_eq_2 del: replaceAll.simps)
      then show ?thesis
        unfolding Cons facts(1) .
    qed
  qed
qed

lemma takeWhile_stops:
  "\<not> P d \<Longrightarrow> takeWhile P (u @ d # z) = takeWhile P (u @ d # z')"
  by (induction u) auto

lemma rule_head_fresh:
  assumes "10 \<notin> set (takeWhile is_space r)"
  shows "\<not> rule_head (js ''---\<newline>'' @ replaceAll ruleRegex (js ''---\<newline>'') r)"
proof -
  have "takeWhile is_space (replaceAll ruleRegex (js ''---\<newline>'') r) = takeWhile is_space r"
    by (rule rule_takeWhile) (rule space_chars)
  with assms have "count_list (takeWhile is_space (replaceAll ruleRegex (js ''---\<newline>'') r)) 10 = 0"
    by (simp add: count_list_0_iff)
  then show ?thesis
    by (simp add: rule_head_def js_def space_chars del: replaceAll.simps)
qed

lemma rule_head_context:
  "rule_head (a @ replaceAll ruleRegex (js ''---\<newline>'') x) \<Longrightarrow> rule_head (a @ x)"
proof (induction x arbitrary: a rule: length_induct)
  case (1 x)
  show ?case
  proof (cases x)
    case Nil
    with "1.prems" show ?thesis by (simp add: rule_Nil del: replaceAll.simps)
  next
    case (Cons c cs)
    show ?thesis
    proof (cases "rmatch ruleRegex (c # cs)")
      case None
      from "1.prems" have "rule_head ((a @ [c]) @ replaceAll ruleRegex (js ''---\<newline>'') cs)"
        unfolding Cons rule_Cons_None [OF None] by simp
      moreover have "length cs < length x"
        using Cons by simp
      ultimately have "rule_head ((a @ [c]) @ cs)"
        using "1.IH" by blast
      then show ?thesis
        by (simp add: Cons)
    next
      case (Some m)
      obtain gs r where m: "rmatch ruleRegex (c # cs) = Some (gs, r)"
        using Some by (cases m) auto
      let ?y = "replaceAll ruleRegex (js ''---\<newline>'') r"
      note facts = rule_Cons_Some [OF m]
      have h: "rule_head (a @ js ''---\<newline>'' @ ?y)"
        using "1.prems" unfolding Cons facts(1) .
      have cs: "c # cs = 45 # cs"
        using facts(4) by simp
      consider "a = []" | a1 where "a = [a1]" | a1 a2 where "a = [a1, a2]"
        | a1 a2 a3 a' where "a = a1 # a2 # a3 # a'"
        by (cases a; cases "tl a"; cases "tl (tl a)") auto
      then show ?thesis
      proof cases
        case 1
        with h rule_head_fresh [OF rule_match_rest [OF m]] show ?thesis by simp
      next
        case 2
        with h show ?thesis
          by (simp add: rule_head_def js_def space_chars del: replaceAll.simps)
      next
        case 3
        with h show ?thesis
          by (simp add: rule_head_def js_def space_chars del: replaceAll.simps)
      next
        case 4
        have "takeWhile is_space (a' @ 45 # (js ''--\<newline>'' @ ?y)) = takeWhile is_space (a' @ 45 # cs)"
          by (rule takeWhile_stops) (rule space_chars)
        with h 4 show ?thesis
          unfolding Cons cs by (simp add: rule_head_def js_def del: replaceAll.simps)
      qed
    qed
  qed
qed

lemma rules_cleaned:
  "suffix t (replaceAll ruleRegex (js ''---\<newline>'') s) \<Longrightarrow> \<not> rule_head t"
proof (induction s arbitrary: t rule: length_induct)
  case (1 s)
  show ?case
  proof (cases s)
    case Nil
    with "1.prems" show ?thesis
      by (simp add: rule_Nil rule_head_def js_def del: replaceAll.simps)
  next
    case (Cons c cs)
    show ?thesis
    proof (cases "rmatch ruleRegex (c # cs)")
      case None
      let ?y = "replaceAll ruleRegex (js ''---\<newline>'') cs"
      from "1.prems" have "t = c # ?y \<or> suffix t ?y"
        unfolding Cons rule_Cons_None [OF None] by (simp add: suffix_Cons)
      then show ?thesis
      proof
        assume t: "t = c # ?y"
        show ?thesis
        proof
          assume "rule_head t"
          then have "rule_head ([c] @ ?y)"
            using t by simp
          then have "rule_head ([c] @ cs)"
            by (rule rule_head_context)
          then have "rmatch ruleRegex (c # cs) \<noteq> None"
            using rule_match_iff by simp
          with None show False by simp
        qed
      next
        assume "suffix t ?y"
        moreover have "length cs < length s"
          using Cons by simp
        ultimately show ?thesis
          using "1.IH" by blast
      qed
    next
      case (Some m)
      obtain gs r where m: "rmatch ruleRegex (c # cs) = Some (gs, r)"
        using Some by (cases m) auto
      let ?y = "replaceAll ruleRegex (js ''---\<newline>'') r"
      note facts = rule_Cons_Some [OF m]
      from "1.prems" have "suffix t (45 # 45 # 45 # 10 # ?y)"
        unfolding Cons facts(1) by (simp add: js_def del: replaceAll.simps)
      then consider "t = js ''---\<newline>'' @ ?y" | "t = 45 # 45 # 10 # ?y" | "t = 45 # 10 # ?y"
        | "t = 10 # ?y" | "suffix t ?y"
        by (auto simp: suffix_Cons js_def simp del: replaceAll.simps)
      then show ?thesis
      proof cases
        case 1
        then show ?thesis
          using rule_head_fresh [OF rule_match_rest [OF m]] by simp
      next
        case 5
        moreover have "length r < length s"
          using facts(2) Cons by simp
        ultimately show ?thesis
          using "1.IH" by blast
      qed (simp_all add: rule_head_def js_def del: replaceAll.simps)
    qed
  qed
qed

section \<open>Formatting twice\<close>

lemma count_takeWhile_append:
  "count_list (takeWhile P xs) a \<le> count_list (takeWhile P (xs @ ys)) a"
  by (induction xs) auto

lemma rule_head_extend: "rule_head t \<Longrightarrow> rule_head (t @ w)"
proof -
  assume h: "rule_head t"
  then have p: "prefix (js ''---'') t"
    by (simp add: rule_head_def)
  then have "3 \<le> length t"
    using prefix_length_le by (fastforce simp: js_def)
  then have "drop 3 (t @ w) = drop 3 t @ w"
    by simp
  moreover have "prefix (js ''---'') (t @ w)"
    using p by (rule prefix_prefix)
  ultimately show ?thesis
    using h count_takeWhile_append [of is_space "drop 3 t" 10 w]
    by (simp add: rule_head_def)
qed

lemma trim_keeps_rule_free:
  assumes "\<And>t. suffix t s \<Longrightarrow> \<not> rule_head t"
  shows "suffix t (trim s) \<Longrightarrow> \<not> rule_head t"
proof
  assume t: "suffix t (trim s)" and h: "rule_head t"
  obtain l r where s: "s = l @ trim s @ r"
    using trim_parts by blast
  from t obtain u where "trim s = u @ t"
    by (auto simp: suffix_def)
  with s have "s = (l @ u) @ (t @ r)"
    by simp
  then have "suffix (t @ r) s"
    by (metis suffixI)
  moreover from h have "rule_head (t @ r)"
    by (rule rule_head_extend)
  ultimately show False
    using assms by blast
qed

lemma trim_trim: "trim (trim s) = trim s"
proof -
  let ?u = "dropWhile is_space s"
  let ?v = "rev (dropWhile is_space (rev ?u))"
  have v: "trim s = ?v"
    by (simp add: trim_def)
  have "dropWhile is_space ?v = ?v"
  proof (cases "?v = []")
    case True
    show ?thesis unfolding True by simp
  next
    case False
    have "?u = ?v @ rev (takeWhile is_space (rev ?u))"
      by (metis rev_append rev_rev_ident takeWhile_dropWhile_id)
    with False have "hd ?v = hd ?u"
      by (metis hd_append2)
    moreover have "?u \<noteq> []"
    proof
      assume e: "?u = []"
      have "?v = []"
        unfolding e by simp
      with False show False ..
    qed
    then have "\<not> is_space (hd ?u)"
      by (rule hd_dropWhile)
    ultimately have "\<not> is_space (hd ?v)"
      by simp
    with False show ?thesis
      by (metis dropWhile.simps(2) list.collapse)
  qed
  then show ?thesis
    unfolding v trim_def by simp
qed

lemma no_triple_fixed:
  assumes "\<not> sublist [10, 10, 10] s"
  shows "replaceAll lineBreaksRegex rep s = s"
proof -
  have "rmatch lineBreaksRegex t = None" if "suffix t s" for t
  proof -
    have "\<not> prefix [10, 10, 10] t"
      using that assms by (meson prefix_imp_sublist sublist_order.order_trans suffix_imp_sublist)
    then show ?thesis
      by (simp only: lineBreaks_match if_False)
  qed
  then show ?thesis
    using no_match_anywhere by blast
qed

lemma rule_free_fixed:
  assumes "\<And>t. suffix t s \<Longrightarrow> \<not> rule_head t"
  shows "replaceAll ruleRegex rep s = s"
proof -
  have "rmatch ruleRegex t = None" if "suffix t s" for t
    using assms [OF that] rule_match_iff [of t] by blast
  then show ?thesis
    using no_match_anywhere by blast
qed

lemma normal_again:
  assumes "y = trim (replaceAll ruleRegex (js ''---\<newline>'') (replaceAll lineBreaksRegex [10, 10] z))"
  shows "trim (replaceAll ruleRegex (js ''---\<newline>'') (replaceAll lineBreaksRegex [10, 10] y)) = y"
proof -
  let ?c = "replaceAll lineBreaksRegex [10, 10] z"
  let ?d = "replaceAll ruleRegex (js ''---\<newline>'') ?c"
  have "\<not> sublist [10, 10, 10] ?d"
    by (intro rules_no_triple lines_no_triple)
  then have "\<not> sublist [10, 10, 10] y"
    unfolding assms using sublist_trim by blast
  then have 1: "replaceAll lineBreaksRegex [10, 10] y = y"
    by (rule no_triple_fixed)
  have "\<not> rule_head t" if "suffix t y" for t
  proof -
    have "\<not> rule_head t'" if "suffix t' ?d" for t'
      using that by (rule rules_cleaned)
    then show ?thesis
      using trim_keeps_rule_free [of ?d t] that unfolding assms by blast
  qed
  then have 2: "replaceAll ruleRegex (js ''---\<newline>'') y = y"
    by (rule rule_free_fixed)
  have 3: "trim y = y"
    unfolding assms by (rule trim_trim)
  show ?thesis
    unfolding 1 2 3 ..
qed

lemma format_again:
  assumes "matchAll chartDataRegex (formatAIResponse x) = []"
    and "matchAll emptyBlockRegex (formatAIResponse x) = []"
  shows "formatAIResponse (formatAIResponse x) = formatAIResponse x"
proof -
  let ?y = "formatAIResponse x"
  have "formatAIResponse ?y
      = trim (replaceAll ruleRegex (js ''---\<newline>'') (replaceAll lineBreaksRegex [10, 10] ?y))"
    unfolding formatAIResponse_def [of ?y] Let_def
      no_matches_replace [OF assms(1)] no_matches_replace [OF assms(2)] ..
  also have "\<dots> = ?y"
    by (rule normal_again) (simp add: formatAIResponse_def Let_def)
  finally show ?thesis .
qed

lemma replace_not_longer:
  assumes "\<And>t gs r. rmatch re t = Some (gs, r) \<Longrightarrow> length rep + length r \<le> length t \<and> length r < length t"
  shows "length (replaceAll re rep s) \<le> length s"
proof (induction s rule: length_induct)
  case (1 s)
  show ?case
  proof (cases s)
    case Nil
    have "rmatch re [] = None"
      using assms [of "[]"] by (cases "rmatch re []") auto
    with Nil show ?thesis by simp
  next
    case (Cons c cs)
    show ?thesis
    proof (cases "rmatch re (c # cs)")
      case None
      with "1.IH" Cons show ?thesis by simp
    next
      case (Some m)
      obtain gs r where m: "rmatch re (c # cs) = Some (gs, r)"
        using Some by (cases m) auto
      from assms [OF m] have len: "length r \<le> length cs" "length rep + length r \<le> length s"
        using Cons by simp_all
      then have "length (replaceAll re rep r) \<le> length r"
        using "1.IH" Cons by simp
      with m len Cons show ?thesis by simp
    qed
  qed
qed

lemma replace_shorter:
  assumes "\<And>t gs r. rmatch re t = Some (gs, r) \<Longrightarrow> length rep + length r < length t"
  shows "matchAll re s \<noteq> [] \<Longrightarrow> length (replaceAll re rep s) < length s"
proof (induction s rule: length_induct)
  case (1 s)
  have le: "length (replaceAll re rep x) \<le> length x" for x
    by (rule replace_not_longer) (use assms in fastforce)
  show ?case
  proof (cases s)
    case Nil
    have "rmatch re [] = None"
      using assms [of "[]"] by (cases "rmatch re []") auto
    with Nil "1.prems" show ?thesis by simp
  next
    case (Cons c cs)
    show ?thesis
    proof (cases "rmatch re (c # cs)")
      case None
      with "1.prems" Cons have "matchAll re cs \<noteq> []"
        by simp
      then have "length (replaceAll re rep cs) < length cs"
        using "1.IH" Cons by simp
      with None Cons show ?thesis by simp
    next
      case (Some m)
      obtain gs r where m: "rmatch re (c # cs) = Some (gs, r)"
        using Some by (cases m) auto
      from assms [OF m] have len: "length r \<le> length cs" "length rep + length r < length s"
        using Cons by simp_all
      with m Cons le [of r] show ?thesis by simp
    qed
  qed
qed

lemma star_continues:
  "rmatch (Star P # its) s = Some (gs, r) \<Longrightarrow>
     \<exists>s' gs'. length s' \<le> length s \<and> rmatch its s' = Some (gs', r)"
proof (induction s arbitrary: gs r)
  case Nil
  then show ?case by auto
next
  case (Cons c cs)
  show ?case
  proof (cases "rmatch (Star P # its) cs")
    case None
    with Cons.prems obtain gs' where "rmatch its (c # cs) = Some (gs', r)"
      by (auto split: if_splits)
    then show ?thesis by blast
  next
    case (Some m0)
    obtain gs0 r0 where m: "rmatch (Star P # its) cs = Some (gs0, r0)"
      using Some by (cases m0) auto
    with star_groups obtain g gs1 where g: "gs0 = g # gs1" by blast
    show ?thesis
    proof (cases "P c")
      case True
      with m g Cons.prems have "r0 = r"
        by simp
      with m Cons.IH obtain s' gs' where "length s' \<le> length cs" "rmatch its s' = Some (gs', r)"
        by blast
      then show ?thesis
        by (metis le_SucI length_Cons)
    next
      case False
      with Cons.prems obtain gs' where "rmatch its (c # cs) = Some (gs', r)"
        by auto
      then show ?thesis by blast
    qed
  qed
qed

lemma lit_continues:
  "rmatch (Lit p # its) s = Some (gs, r) \<Longrightarrow>
     \<exists>s' gs'. length s' + length p = length s \<and> rmatch its s' = Some (gs', r)"
proof -
  assume a: "rmatch (Lit p # its) s = Some (gs, r)"
  then have p: "prefix p s"
    by (rule rmatch_Lit_prefix)
  with a obtain gs' where "rmatch its (drop (length p) s) = Some (gs', r)"
    by auto
  moreover from p have "length (drop (length p) s) + length p = length s"
    by (simp add: prefix_length_le)
  ultimately show ?thesis by blast
qed

lemma rule_match_length:
  assumes "rmatch ruleRegex t = Some (gs, r)"
  shows "5 + length r \<le> length t"
proof -
  from assms have "rmatch (Lit (js ''---'') # [Star is_space, Lit [10], Star is_space, Lit [10]]) t
      = Some (gs, r)"
    unfolding ruleRegex_def .
  from lit_continues [OF this] obtain s1 g1 where "length s1 + length (js ''---'') = length t"
    and 1: "rmatch [Star is_space, Lit [10], Star is_space, Lit [10]] s1 = Some (g1, r)"
    by blast
  then have l1: "length s1 + 3 = length t"
    by (simp add: js_def)
  from star_continues [OF 1] obtain s2 g2 where 2: "length s2 \<le> length s1"
      "rmatch [Lit [10], Star is_space, Lit [10]] s2 = Some (g2, r)"
    by blast
  from lit_continues [OF 2(2)] obtain s3 g3 where 3: "length s3 + 1 = length s2"
      "rmatch [Star is_space, Lit [10]] s3 = Some (g3, r)"
    by auto
  from star_continues [OF 3(2)] obtain s4 g4 where 4: "length s4 \<le> length s3"
      "rmatch [Lit [10]] s4 = Some (g4, r)"
    by blast
  from lit_continues [OF 4(2)] have "length r + 1 = length s4"
    by auto
  with l1 2(1) 3(1) 4(1) show ?thesis
    by simp
qed

lemma trim_not_longer: "length (trim s) \<le> length s"
proof -
  obtain l r where "s = l @ trim s @ r"
    using trim_parts by blast
  then have "length s = length l + length (trim s) + length r"
    by (metis add.assoc length_append)
  then show ?thesis by simp
qed

lemma clean_not_longer:
  "length (trim (replaceAll ruleRegex (js ''---\<newline>'') (replaceAll lineBreaksRegex [10, 10] s)))
     \<le> length s"
proof -
  have "length (replaceAll lineBreaksRegex [10, 10] s) \<le> length s"
  proof (rule replace_not_longer)
    fix t gs r
    assume m: "rmatch lineBreaksRegex t = Some (gs, r)"
    then have "prefix [10, 10, 10] t" "r = dropWhile (\<lambda>c. c = 10) (drop 3 t)"
      by (auto simp: lineBreaks_match split: if_splits)
    moreover have "length (dropWhile (\<lambda>c. c = 10) (drop 3 t)) \<le> length (drop 3 t)"
      by (rule length_dropWhile_le)
    ultimately show "length [10, 10] + length r \<le> length t \<and> length r < length t"
      using prefix_length_le by fastforce
  qed
  moreover have "length (replaceAll ruleRegex (js ''---\<newline>'') x) \<le> length x" for x
    by (rule replace_not_longer) (use rule_match_length in \<open>fastforce simp: js_def\<close>)
  ultimately show ?thesis
    using trim_not_longer
    by (meson order_trans)
qed

lemma format_shrinks:
  assumes "matchAll chartDataRegex y \<noteq> [] \<or> matchAll emptyBlockRegex y \<noteq> []"
  shows "length (formatAIResponse y) < length y"
proof -
  have chart: "length [] + length r < length t" if "rmatch chartDataRegex t = Some (gs, r)" for t gs r
    using that unfolding chartDataRegex_def
    by (simp only: list.size add_0) (rule rmatch_shorter, assumption, rule chart_open_nonempty)
  have empty: "length [] + length r < length t" if "rmatch emptyBlockRegex t = Some (gs, r)" for t gs r
    using that unfolding emptyBlockRegex_def
    by (simp only: list.size add_0) (rule rmatch_shorter, assumption, simp add: fence_def js_def)
  have empty_le: "length (replaceAll emptyBlockRegex [] s) \<le> length s" for s
    by (rule replace_not_longer) (use empty in fastforce)
  let ?a = "replaceAll chartDataRegex [] y"
  let ?b = "replaceAll emptyBlockRegex [] ?a"
  have "length ?b < length y"
  proof (cases "matchAll chartDataRegex y = []")
    case True
    with assms have "matchAll emptyBlockRegex y \<noteq> []"
      by simp
    then have "length (replaceAll emptyBlockRegex [] y) < length y"
      using empty by (rule replace_shorter [rotated])
    then show ?thesis
      by (simp only: no_matches_replace [OF True])
  next
    case False
    then have "length ?a < length y"
      using chart by (rule replace_shorter [rotated])
    with empty_le [of ?a] show ?thesis
      by simp
  qed
  moreover have "length (formatAIResponse y) \<le> length ?b"
    unfolding formatAIResponse_def Let_def by (rule clean_not_longer)
  ultimately show ?thesis
    by simp
qed

lemma format_again_iff:
  "formatAIResponse (formatAIResponse x) = formatAIResponse x
   \<longleftrightarrow> matchAll chartDataRegex (formatAIResponse x) = []
       \<and> matchAll emptyBlockRegex (formatAIResponse x) = []"
  using format_again [of x] format_shrinks [of "formatAIResponse x"]
  by (metis less_irrefl)

section \<open>Replies without chart blocks\<close>

text \<open>
  C7, as stated, fails for idempotence. The text of four backticks, a space and eight
  backticks has no chart block. Its display text is six backticks: the first empty
  fence found (backticks two to four, the space, and three more backticks) is removed,
  and what is left of the text is joined. Formatting the display text again removes the six
  backticks as an empty fence and gives the empty text.
\<close>

theorem format_twice_counterexample:
  "matchAll chartDataRegex (js ''```` ````````'') = []
   \<and> formatAIResponse (js ''```` ````````'') = js ''``````''
   \<and> formatAIResponse (js ''``````'') = []
   \<and> formatAIResponse (formatAIResponse (js ''```` ````````''))
       \<noteq> formatAIResponse (js ''```` ````````'')"
proof -
  have m: "matchAll chartDataRegex (js ''```` ````````'') = []"
    by (simp add: chartDataRegex_def chart_open_def chart_close_def js_def)
  have 1: "replaceAll chartDataRegex [] (js ''```` ````````'') = js ''```` ````````''"
    using m by (rule no_matches_replace)
  have 2: "replaceAll emptyBlockRegex [] (js ''```` ````````'') = js ''``````''"
    by (simp add: emptyBlockRegex_def fence_def js_def is_space_def)
  have 3: "replaceAll lineBreaksRegex [10, 10] (js ''``````'') = js ''``````''"
    by (simp add: lineBreaksRegex_def js_def)
  have 4: "replaceAll ruleRegex (js ''---\<newline>'') (js ''``````'') = js ''``````''"
    by (simp add: ruleRegex_def js_def)
  have 5: "trim (js ''``````'') = js ''``````''"
    by (simp add: trim_def js_def is_space_def)
  have f: "formatAIResponse (js ''```` ````````'') = js ''``````''"
    unfolding formatAIResponse_def Let_def 1 2 3 4 5 ..
  have 6: "replaceAll chartDataRegex [] (js ''``````'') = js ''``````''"
    by (simp add: chartDataRegex_def chart_open_def chart_close_def js_def)
  have 7: "replaceAll emptyBlockRegex [] (js ''``````'') = []"
    by (simp add: emptyBlockRegex_def fence_def js_def is_space_def)
  have 8: "replaceAll lineBreaksRegex [10, 10] [] = []" "replaceAll ruleRegex (js ''---\<newline>'') [] = []"
    "trim [] = []"
    by (simp_all add: lines_Nil rule_Nil trim_def del: replaceAll.simps)
  have g: "formatAIResponse (js ''``````'') = []"
    unfolding formatAIResponse_def Let_def 6 7 8 ..
  have "js ''``````'' \<noteq> []"
    by (simp add: js_def)
  with m f g show ?thesis
    by simp
qed

text \<open>
  C7, amended. For every raw text with no chart block, parsing returns no chart and
  writes nothing to the console, and the display text is the input tidied: empty
  fences removed, three or more line breaks collapsed to two, the white space after a
  rule cleaned, and the result trimmed. Formatting the display text again gives the
  same display text exactly when the display text itself contains no chart block and
  no empty fence.
\<close>

theorem no_blocks_display:
  assumes "matchAll chartDataRegex x = []"
  shows "parseChartDataFromResponse JSON_parse x = Inr ([], [])
     \<and> formatAIResponse x = tidy x
     \<and> (formatAIResponse (formatAIResponse x) = formatAIResponse x
          \<longleftrightarrow> matchAll chartDataRegex (formatAIResponse x) = []
              \<and> matchAll emptyBlockRegex (formatAIResponse x) = [])"
proof -
  have 1: "parseChartDataFromResponse JSON_parse x = Inr ([], [])"
    by (simp add: parseChartDataFromResponse_def assms)
  have 2: "formatAIResponse x = tidy x"
    by (simp add: formatAIResponse_def tidy_def no_matches_replace [OF assms])
  from 1 2 format_again_iff [of x] show ?thesis
    by blast
qed

lemma notes_display:
  "formatAIResponse (js '' a\<newline>\<newline>\<newline>\<newline>b--- \<newline> \<newline>  c---\<newline>d  '')
   = js ''a\<newline>\<newline>b---\<newline>  c---\<newline>d''"
proof -
  have 1: "replaceAll chartDataRegex [] (js '' a\<newline>\<newline>\<newline>\<newline>b--- \<newline> \<newline>  c---\<newline>d  '')
      = js '' a\<newline>\<newline>\<newline>\<newline>b--- \<newline> \<newline>  c---\<newline>d  ''"
    by (simp add: chartDataRegex_def chart_open_def chart_close_def js_def)
  have 2: "replaceAll emptyBlockRegex [] (js '' a\<newline>\<newline>\<newline>\<newline>b--- \<newline> \<newline>  c---\<newline>d  '')
      = js '' a\<newline>\<newline>\<newline>\<newline>b--- \<newline> \<newline>  c---\<newline>d  ''"
    by (simp add: emptyBlockRegex_def fence_def js_def is_space_def)
  have 3: "replaceAll lineBreaksRegex [10, 10] (js '' a\<newline>\<newline>\<newline>\<newline>b--- \<newline> \<newline>  c---\<newline>d  '')
      = js '' a\<newline>\<newline>b--- \<newline> \<newline>  c---\<newline>d  ''"
    by (simp add: lineBreaksRegex_def js_def)
  have 4: "replaceAll ruleRegex (js ''---\<newline>'') (js '' a\<newline>\<newline>b--- \<newline> \<newline>  c---\<newline>d  '')
      = js '' a\<newline>\<newline>b---\<newline>  c---\<newline>d  ''"
    by (simp add: ruleRegex_def js_def is_space_def)
  have 5: "trim (js '' a\<newline>\<newline>b---\<newline>  c---\<newline>d  '') = js ''a\<newline>\<newline>b---\<newline>  c---\<newline>d''"
    by (simp add: trim_def js_def is_space_def)
  show ?thesis
    unfolding formatAIResponse_def Let_def 1 2 3 4 5 ..
qed

theorem no_blocks_display_witness:
  "matchAll chartDataRegex (js '' a\<newline>\<newline>\<newline>\<newline>b--- \<newline> \<newline>  c---\<newline>d  '') = []
   \<and> matchAll chartDataRegex (js ''a\<newline>\<newline>b---\<newline>  c---\<newline>d'') = []
   \<and> matchAll emptyBlockRegex (js ''a\<newline>\<newline>b---\<newline>  c---\<newline>d'') = []
   \<and> parseChartDataFromResponse example_parse
         (js '' a\<newline>\<newline>\<newline>\<newline>b--- \<newline> \<newline>  c---\<newline>d  '') = Inr ([], [])
   \<and> formatAIResponse (js '' a\<newline>\<newline>\<newline>\<newline>b--- \<newline> \<newline>  c---\<newline>d  '')
       = js ''a\<newline>\<newline>b---\<newline>  c---\<newline>d''
   \<and> formatAIResponse (js ''a\<newline>\<newline>b---\<newline>  c---\<newline>d'')
       = js ''a\<newline>\<newline>b---\<newline>  c---\<newline>d''"
proof -
  have a: "matchAll chartDataRegex (js '' a\<newline>\<newline>\<newline>\<newline>b--- \<newline> \<newline>  c---\<newline>d  '') = []"
    by (simp add: chartDataRegex_def chart_open_def chart_close_def js_def)
  have b: "matchAll chartDataRegex (js ''a\<newline>\<newline>b---\<newline>  c---\<newline>d'') = []"
    by (simp add: chartDataRegex_def chart_open_def chart_close_def js_def)
  have c: "matchAll emptyBlockRegex (js ''a\<newline>\<newline>b---\<newline>  c---\<newline>d'') = []"
    by (simp add: emptyBlockRegex_def fence_def js_def is_space_def)
  show ?thesis
    using a b c no_blocks_display [OF a, of example_parse]
    unfolding notes_display
    by blast
qed

end
